(* ===== verification/Prelude.thy ===== *)
theory Prelude
  imports Main "HOL-Library.State_Monad"
begin

text \<open>
  Shared vocabulary of the development: the parts of the C and C++ standard library that the
  server under \<^verbatim>\<open>src/src/\<close> uses (character classes, NUL-terminated strings, \<^verbatim>\<open>strtol\<close>,
  \<^verbatim>\<open>atoi\<close>, \<^verbatim>\<open>std::to_string\<close>), the conversion of a \<^verbatim>\<open>long\<close> to a 32-bit \<^verbatim>\<open>int\<close>, C++
  exceptions as values, and generic lemmas that the component theories use through simp rules.
  A byte is a \<^typ>\<open>char\<close>; a \<^verbatim>\<open>std::string\<close> is a \<^typ>\<open>string\<close>.
\<close>

named_theorems lib_defs \<open>definitions of the modelled standard library\<close>

section \<open>Exceptions as values\<close>

text \<open>
  \<^verbatim>\<open>nlohmann::json::parse_error\<close> is caught separately by the handlers; every other exception
  derived from \<^verbatim>\<open>std::exception\<close> carries its \<^verbatim>\<open>what()\<close>; the rest reach \<^verbatim>\<open>catch (...)\<close>.
\<close>

datatype exn = Parse_error string | Std_exception string | Unknown_exception

fun exn_what :: "exn \<Rightarrow> string option" where
  "exn_what (Parse_error m) = Some m"
| "exn_what (Std_exception m) = Some m"
| "exn_what Unknown_exception = None"

section \<open>Bytes\<close>

abbreviation code_of :: "char \<Rightarrow> nat" where
  "code_of c \<equiv> of_char c"

abbreviation NUL :: char where "NUL \<equiv> CHR 0x00"
abbreviation TAB :: char where "TAB \<equiv> CHR 0x09"
abbreviation LF :: char where "LF \<equiv> CHR 0x0A"
abbreviation CR :: char where "CR \<equiv> CHR 0x0D"

definition isdigit :: "char \<Rightarrow> bool" where
  [lib_defs]: "isdigit c = (48 \<le> code_of c \<and> code_of c \<le> 57)"

definition isupper :: "char \<Rightarrow> bool" where
  [lib_defs]: "isupper c = (65 \<le> code_of c \<and> code_of c \<le> 90)"

definition islower :: "char \<Rightarrow> bool" where
  [lib_defs]: "islower c = (97 \<le> code_of c \<and> code_of c \<le> 122)"

definition isalnum :: "char \<Rightarrow> bool" where
  [lib_defs]: "isalnum c = (isdigit c \<or> isupper c \<or> islower c)"

definition isspace :: "char \<Rightarrow> bool" where
  [lib_defs]: "isspace c = (c = CHR '' '' \<or> (9 \<le> code_of c \<and> code_of c \<le> 13))"

text \<open>\<^verbatim>\<open>tolower\<close> in the C locale.\<close>

definition tolower :: "char \<Rightarrow> char" where
  [lib_defs]: "tolower c = (if isupper c then char_of (code_of c + 32) else c)"

section \<open>C strings\<close>

text \<open>\<^verbatim>\<open>s.c_str()\<close> handed to a C function: the bytes before the first NUL.\<close>

definition c_str :: "string \<Rightarrow> string" where
  [lib_defs]: "c_str s = takeWhile (\<lambda>c. c \<noteq> NUL) s"

definition strcasecmp_eq :: "string \<Rightarrow> string \<Rightarrow> bool" where
  [lib_defs]: "strcasecmp_eq s t = (map tolower s = map tolower t)"

text \<open>\<^verbatim>\<open>strncmp(s, t, n) == 0\<close> and \<^verbatim>\<open>strncasecmp(s, t, n) == 0\<close> on strings without a NUL.\<close>

definition strncmp_eq :: "string \<Rightarrow> string \<Rightarrow> nat \<Rightarrow> bool" where
  [lib_defs]: "strncmp_eq s t n = (take n s = take n t)"

definition strncasecmp_eq :: "string \<Rightarrow> string \<Rightarrow> nat \<Rightarrow> bool" where
  [lib_defs]: "strncasecmp_eq s t n = (map tolower (take n s) = map tolower (take n t))"

text \<open>Offset of the first byte that satisfies a test: \<^verbatim>\<open>strpbrk\<close> and \<^verbatim>\<open>strchr\<close>.\<close>

fun find_index :: "(char \<Rightarrow> bool) \<Rightarrow> string \<Rightarrow> nat option" where
  "find_index p [] = None"
| "find_index p (c # s) = (if p c then Some 0 else map_option Suc (find_index p s))"

definition strpbrk_blank :: "string \<Rightarrow> nat option" where
  [lib_defs]: "strpbrk_blank s = find_index (\<lambda>c. c = CHR '' '' \<or> c = TAB) s"

definition strchr :: "string \<Rightarrow> char \<Rightarrow> nat option" where
  [lib_defs]: "strchr s x = find_index (\<lambda>c. c = x) s"

text \<open>\<^verbatim>\<open>strspn(s, " \\t")\<close>.\<close>

definition strspn_blank :: "string \<Rightarrow> nat" where
  [lib_defs]: "strspn_blank s = length (takeWhile (\<lambda>c. c = CHR '' '' \<or> c = TAB) s)"

text \<open>\<^verbatim>\<open>s.rfind(p, 0) == 0\<close> and \<^verbatim>\<open>s.find(p) == 0\<close>: \<open>p\<close> is a prefix of \<open>s\<close>.\<close>

definition starts_with :: "string \<Rightarrow> string \<Rightarrow> bool" where
  [lib_defs]: "starts_with s p = (take (length p) s = p)"

text \<open>\<^verbatim>\<open>s.find(p) != npos\<close>.\<close>

fun contains_sub :: "string \<Rightarrow> string \<Rightarrow> bool" where
  "contains_sub [] p = (p = [])"
| "contains_sub (c # s) p = (starts_with (c # s) p \<or> contains_sub s p)"

section \<open>Decimal numbers\<close>

fun show_nat :: "nat \<Rightarrow> string" where
  "show_nat n =
     (if n < 10 then [char_of (48 + n)] else show_nat (n div 10) @ [char_of (48 + n mod 10)])"

declare show_nat.simps [simp del]

text \<open>\<^verbatim>\<open>std::to_string\<close> on a signed integer.\<close>

definition to_string :: "int \<Rightarrow> string" where
  "to_string i = (if i < 0 then CHR ''-'' # show_nat (nat (- i)) else show_nat (nat i))"

definition digits_val :: "string \<Rightarrow> nat" where
  "digits_val s = foldl (\<lambda>v c. 10 * v + (code_of c - 48)) 0 s"

definition LONG_MAX :: int where "LONG_MAX = 9223372036854775807"
definition LONG_MIN :: int where "LONG_MIN = - 9223372036854775808"
definition INT_MAX :: int where "INT_MAX = 2147483647"
definition INT_MIN :: int where "INT_MIN = - 2147483648"

definition clamp_long :: "int \<Rightarrow> int" where
  "clamp_long v = max LONG_MIN (min LONG_MAX v)"

text \<open>
  \<^verbatim>\<open>strtol(s, &end, 10)\<close> on an LP64 system: the value, saturated at the range of \<^verbatim>\<open>long\<close>, and
  the offset of \<^verbatim>\<open>end\<close> in \<open>s\<close> (0 when no digit was found).
\<close>

definition strtol :: "string \<Rightarrow> int \<times> nat" where
  "strtol s =
     (let ws = takeWhile isspace s;
          r = dropWhile isspace s;
          neg = (r \<noteq> [] \<and> hd r = CHR ''-'');
          sgn = (r \<noteq> [] \<and> (hd r = CHR ''-'' \<or> hd r = CHR ''+''));
          ds = takeWhile isdigit (if sgn then tl r else r)
      in if ds = [] then (0, 0)
         else (clamp_long (if neg then - int (digits_val ds) else int (digits_val ds)),
               length ws + (if sgn then 1 else 0) + length ds))"

text \<open>\<^verbatim>\<open>static_cast<int>\<close> of a 64-bit value: two's complement wrap-around.\<close>

definition to_int32 :: "int \<Rightarrow> int" where
  "to_int32 v = (v + 2147483648) mod 4294967296 - 2147483648"

text \<open>\<^verbatim>\<open>atol\<close> is \<^verbatim>\<open>strtol(s, NULL, 10)\<close> and \<^verbatim>\<open>atoi\<close> is its conversion to \<^verbatim>\<open>int\<close>.\<close>

definition atol :: "string \<Rightarrow> int" where
  "atol s = fst (strtol s)"

definition atoi :: "string \<Rightarrow> int" where
  "atoi s = to_int32 (atol s)"

definition int32 :: "int \<Rightarrow> bool" where
  "int32 v = (INT_MIN \<le> v \<and> v \<le> INT_MAX)"

section \<open>Generic lemmas\<close>

lemmas int_bounds = LONG_MAX_def LONG_MIN_def INT_MAX_def INT_MIN_def

lemma to_int32_id [simp]: "int32 v \<Longrightarrow> to_int32 v = v"
  by (simp add: int32_def to_int32_def int_bounds)

lemma int32_to_int32 [simp, intro]: "int32 (to_int32 v)"
  by (simp add: int32_def to_int32_def int_bounds)

lemma int32_nonneg: "0 \<le> v \<Longrightarrow> v \<le> INT_MAX \<Longrightarrow> int32 v"
  by (simp add: int32_def int_bounds)

lemma code_of_digit [simp]: "d < 10 \<Longrightarrow> code_of (char_of (48 + d :: nat) :: char) = 48 + d"
  by simp

lemma isdigit_char_of [simp]: "d < 10 \<Longrightarrow> isdigit (char_of (48 + d :: nat))"
  by (simp add: isdigit_def)

lemma show_nat_nonempty [simp]: "show_nat n \<noteq> []"
  by (subst show_nat.simps) simp

lemma digits_val_snoc [simp]: "digits_val (s @ [c]) = 10 * digits_val s + (code_of c - 48)"
  by (simp add: digits_val_def)

lemma show_nat_digits: "\<forall>c \<in> set (show_nat n). isdigit c"
proof (induction n rule: show_nat.induct)
  case (1 n)
  then show ?case
    by (subst show_nat.simps) auto
qed

lemma digits_val_show_nat [simp]: "digits_val (show_nat n) = n"
proof (induction n rule: show_nat.induct)
  case (1 n)
  then show ?case
    by (subst show_nat.simps) (auto simp: digits_val_def [of "[_]"])
qed

lemma show_nat_inj [simp]: "show_nat m = show_nat n \<longleftrightarrow> m = n"
  by (metis digits_val_show_nat)

lemma isdigit_not_space: "isdigit c \<Longrightarrow> \<not> isspace c"
  by (auto simp: isdigit_def isspace_def)

lemma minus_no_digit [simp]: "\<not> isdigit (CHR ''-'')" "\<not> isspace (CHR ''-'')"
  by (simp_all add: isdigit_def isspace_def)

lemma plus_no_digit [simp]: "\<not> isdigit (CHR ''+'')"
  by (simp add: isdigit_def)

lemma takeWhile_digits [simp]:
  "\<forall>c \<in> set s. isdigit c \<Longrightarrow> takeWhile isdigit s = s"
  by (simp add: takeWhile_eq_all_conv)

lemma skip_space_digits:
  assumes "\<forall>c \<in> set s. isdigit c"
  shows "takeWhile isspace s = [] \<and> dropWhile isspace s = s"
  using assms by (cases s) (auto simp: isdigit_not_space)

text \<open>A string of digits is read completely, saturating at \<^const>\<open>LONG_MAX\<close>.\<close>

lemma strtol_digits:
  assumes "\<forall>c \<in> set s. isdigit c" "s \<noteq> []"
  shows "strtol s = (clamp_long (int (digits_val s)), length s)"
proof -
  have "hd s \<noteq> CHR ''-''" "hd s \<noteq> CHR ''+''"
    using assms by (auto dest!: hd_in_set)
  then show ?thesis
    using assms skip_space_digits [OF assms(1)] by (simp add: strtol_def Let_def)
qed

lemma strtol_neg_digits:
  assumes "\<forall>c \<in> set s. isdigit c" "s \<noteq> []"
  shows "strtol (CHR ''-'' # s) = (clamp_long (- int (digits_val s)), Suc (length s))"
  using assms by (simp add: strtol_def Let_def)

text \<open>Printing and reading back a number is the identity on the range of \<^verbatim>\<open>long\<close>.\<close>

lemma strtol_to_string:
  assumes "LONG_MIN \<le> i" "i \<le> LONG_MAX"
  shows "strtol (to_string i) = (i, length (to_string i))"
  using assms
  by (simp add: to_string_def strtol_digits strtol_neg_digits show_nat_digits clamp_long_def)

lemma int32_long: "int32 i \<Longrightarrow> LONG_MIN \<le> i \<and> i \<le> LONG_MAX"
  by (simp add: int32_def int_bounds)

lemma atoi_to_string [simp]: "int32 i \<Longrightarrow> atoi (to_string i) = i"
  using int32_long [of i] by (simp add: atoi_def atol_def strtol_to_string)

lemma to_string_nonempty [simp]: "to_string i \<noteq> []"
  by (simp add: to_string_def)

lemma to_string_chars: "c \<in> set (to_string i) \<Longrightarrow> isdigit c \<or> c = CHR ''-''"
  using show_nat_digits by (auto simp: to_string_def split: if_splits)

lemma to_string_nonneg_digits: "0 \<le> i \<Longrightarrow> \<forall>c \<in> set (to_string i). isdigit c"
  by (simp add: to_string_def show_nat_digits)

lemma to_string_inj [simp]: "to_string i = to_string j \<longleftrightarrow> i = j"
proof -
  have hd: "show_nat n \<noteq> CHR ''-'' # s" for n s
    using show_nat_digits [of n] by (metis list.set_intros(1) minus_no_digit(1))
  show ?thesis
    using hd by (auto simp: to_string_def split: if_splits) (metis hd)+
qed

lemma NUL_no_digit [simp]: "\<not> isdigit NUL"
  by (simp add: isdigit_def)

lemma NUL_not_in_to_string [simp]: "NUL \<notin> set (to_string i)"
proof
  assume "NUL \<in> set (to_string i)"
  then have "isdigit NUL \<or> NUL = CHR ''-''" by (rule to_string_chars)
  then show False by simp
qed

lemma c_str_no_NUL [simp]: "NUL \<notin> set s \<Longrightarrow> c_str s = s"
  by (simp add: c_str_def takeWhile_eq_all_conv) blast

lemma NUL_notin_c_str [simp]: "NUL \<notin> set (c_str s)"
  by (auto simp: c_str_def dest: set_takeWhileD)

lemma c_str_to_string [simp]: "c_str (to_string i) = to_string i"
  by simp

lemma starts_with_append [simp]: "starts_with (p @ s) p"
  by (simp add: starts_with_def)

lemma starts_withD: "starts_with s p \<Longrightarrow> s = p @ drop (length p) s"
  unfolding starts_with_def by (metis append_take_drop_id)

lemma find_index_Some_less: "find_index p s = Some i \<Longrightarrow> i < length s \<and> p (s ! i)"
  by (induction s arbitrary: i) (auto split: if_splits)

lemma find_index_None: "find_index p s = None \<longleftrightarrow> (\<forall>c \<in> set s. \<not> p c)"
  by (induction s) auto

lemma find_index_Some_take: "find_index p s = Some i \<Longrightarrow> \<forall>c \<in> set (take i s). \<not> p c"
proof (induction s arbitrary: i)
  case Nil
  then show ?case by simp
next
  case (Cons c s)
  then show ?case by (auto split: if_splits)
qed

lemma find_index_append:
  "\<forall>c \<in> set s. \<not> p c \<Longrightarrow> find_index p (s @ x # t) = (if p x then Some (length s) else
     map_option (\<lambda>i. Suc (length s + i)) (find_index p t))"
  by (induction s) (auto simp: option.map_comp comp_def)

text \<open>Running a state computation: the pair of the result and the new state.\<close>

lemma run_state_case_option [simp]:
  "run_state (case x of None \<Rightarrow> a | Some y \<Rightarrow> b y) s =
   (case x of None \<Rightarrow> run_state a s | Some y \<Rightarrow> run_state (b y) s)"
  by (cases x) auto

lemma run_state_case_sum [simp]:
  "run_state (case x of Inl y \<Rightarrow> a y | Inr z \<Rightarrow> b z) s =
   (case x of Inl y \<Rightarrow> run_state (a y) s | Inr z \<Rightarrow> run_state (b z) s)"
  by (cases x) auto

lemma run_state_update [simp]: "run_state (State_Monad.update f) s = ((), f s)"
  by (simp add: State_Monad.update_def)

lemma run_state_if [simp]:
  "run_state (if p then a else b) s = (if p then run_state a s else run_state b s)"
  by simp

section \<open>Systems of concurrent steps\<close>

text \<open>
  The concurrent components (thread pool, connection pool, logger) are step relations over a
  state record; a safety property is an invariant of the reachable states.
\<close>

inductive reachable :: "('s \<Rightarrow> bool) \<Rightarrow> ('s \<Rightarrow> 's \<Rightarrow> bool) \<Rightarrow> 's \<Rightarrow> bool"
  for start :: "'s \<Rightarrow> bool" and step :: "'s \<Rightarrow> 's \<Rightarrow> bool" where
  reach_start: "start s \<Longrightarrow> reachable start step s"
| reach_step: "reachable start step s \<Longrightarrow> step s t \<Longrightarrow> reachable start step t"

locale invariant_system =
  fixes start :: "'s \<Rightarrow> bool" and step :: "'s \<Rightarrow> 's \<Rightarrow> bool" and inv :: "'s \<Rightarrow> bool"
  assumes start_inv: "start s \<Longrightarrow> inv s"
    and step_inv: "inv s \<Longrightarrow> step s t \<Longrightarrow> inv t"
begin

lemma reachable_inv: "reachable start step s \<Longrightarrow> inv s"
  by (induction rule: reachable.induct) (auto intro: start_inv step_inv)

end

text \<open>
  A queue guarded by a counting semaphore: every element is covered by a token of the semaphore,
  by a consumer that has taken a token and not yet popped, or by a producer that has pushed and
  not yet released a token. Where the balance is kept, a consumer never finds the queue empty.
\<close>

locale token_queue = invariant_system start step inv
  for start :: "'s \<Rightarrow> bool" and step :: "'s \<Rightarrow> 's \<Rightarrow> bool" and inv :: "'s \<Rightarrow> bool" +
  fixes active :: "'s \<Rightarrow> bool" and tokens :: "'s \<Rightarrow> nat" and claimed :: "'s \<Rightarrow> nat"
    and releasing :: "'s \<Rightarrow> nat" and queue :: "'s \<Rightarrow> 'q list"
  assumes balance: "inv s \<Longrightarrow> active s \<Longrightarrow> tokens s + claimed s + releasing s = length (queue s)"
begin

lemma claimed_nonempty:
  "reachable start step s \<Longrightarrow> active s \<Longrightarrow> 0 < claimed s \<Longrightarrow> queue s \<noteq> []"
  using balance [OF reachable_inv] by fastforce

lemma tokens_bounded: "reachable start step s \<Longrightarrow> active s \<Longrightarrow> tokens s \<le> length (queue s)"
  using balance [OF reachable_inv] by fastforce

end

text \<open>Counting the threads of a list of program counters that satisfy a test.\<close>

definition how_many :: "('a \<Rightarrow> bool) \<Rightarrow> 'a list \<Rightarrow> nat" where
  "how_many p xs = length (filter p xs)"

lemma how_many_simps [simp]:
  "how_many p [] = 0"
  "how_many p (x # xs) = (if p x then Suc (how_many p xs) else how_many p xs)"
  by (simp_all add: how_many_def)

lemma how_many_update:
  "i < length xs \<Longrightarrow>
   how_many p (xs[i := y]) + (if p (xs ! i) then 1 else 0) = how_many p xs + (if p y then 1 else 0)"
proof (induction xs arbitrary: i)
  case Nil
  then show ?case by simp
next
  case (Cons x xs)
  show ?case
  proof (cases i)
    case (Suc j)
    with Cons.prems Cons.IH [of j] show ?thesis by (auto split: if_splits)
  qed auto
qed

lemma how_many_pos: "i < length xs \<Longrightarrow> p (xs ! i) \<Longrightarrow> 0 < how_many p xs"
  by (auto simp: how_many_def filter_empty_conv)

lemma how_many_le: "how_many p xs \<le> length xs"
  by (simp add: how_many_def)

text \<open>The update lemma in the forms the step proofs need.\<close>

lemma how_many_gain: "i < length xs \<Longrightarrow> \<not> p (xs ! i) \<Longrightarrow> p y \<Longrightarrow> how_many p (xs[i := y]) = Suc (how_many p xs)"
  using how_many_update [of i xs p y] by simp

lemma how_many_lose: "i < length xs \<Longrightarrow> p (xs ! i) \<Longrightarrow> \<not> p y \<Longrightarrow> Suc (how_many p (xs[i := y])) = how_many p xs"
  using how_many_update [of i xs p y] by simp

lemma how_many_same: "i < length xs \<Longrightarrow> p (xs ! i) = p y \<Longrightarrow> how_many p (xs[i := y]) = how_many p xs"
  using how_many_update [of i xs p y] by (simp split: if_splits)

end
