(* ===== verification/Json.thy ===== *)
theory Json
  imports Prelude
begin

text \<open>
  Values of \<^verbatim>\<open>nlohmann::ordered_json\<close> (\<^verbatim>\<open>json\<close>, \<^verbatim>\<open>res_json\<close>, \<^verbatim>\<open>storage_json\<close>, \<^verbatim>\<open>json_type\<close> in
  the sources) with the member functions the server calls on them. An object keeps its members in
  insertion order. The parser and the printer of the library are arguments of the definitions that
  use them.
\<close>

section \<open>Values and accessors\<close>

datatype json =
    JNull
  | JBool bool
  | JInt int
  | JReal string              \<comment> \<open>a floating-point number, as its text\<close>
  | JString string
  | JArray "json list"
  | JObject "(string \<times> json) list"

fun contains :: "json \<Rightarrow> string \<Rightarrow> bool" where
  "contains (JObject ms) k = (map_of ms k \<noteq> None)"
| "contains _ k = False"

text \<open>\<^verbatim>\<open>j[k]\<close> for a member that is present.\<close>

fun member :: "json \<Rightarrow> string \<Rightarrow> json" where
  "member (JObject ms) k = (case map_of ms k of None \<Rightarrow> JNull | Some v \<Rightarrow> v)"
| "member _ k = JNull"

fun is_string :: "json \<Rightarrow> bool" where
  "is_string (JString s) = True"
| "is_string _ = False"

fun is_boolean :: "json \<Rightarrow> bool" where
  "is_boolean (JBool b) = True"
| "is_boolean _ = False"

fun is_number_integer :: "json \<Rightarrow> bool" where
  "is_number_integer (JInt i) = True"
| "is_number_integer _ = False"

text \<open>
  Implicit conversions. A value of another type raises \<^verbatim>\<open>type_error\<close>; an integer is cast to
  \<^verbatim>\<open>int\<close>.
\<close>

definition type_error :: exn where
  "type_error = Std_exception ''type_error''"

fun get_string :: "json \<Rightarrow> exn + string" where
  "get_string (JString s) = Inr s"
| "get_string _ = Inl type_error"

fun get_bool :: "json \<Rightarrow> exn + bool" where
  "get_bool (JBool b) = Inr b"
| "get_bool _ = Inl type_error"

fun get_int :: "json \<Rightarrow> exn + int" where
  "get_int (JInt i) = Inr (to_int32 i)"
| "get_int _ = Inl type_error"

text \<open>\<^verbatim>\<open>j.contains(k) ? j[k] : ""\<close> converted to a string.\<close>

definition string_or_empty :: "json \<Rightarrow> string \<Rightarrow> exn + string" where
  "string_or_empty j k = (if contains j k then get_string (member j k) else Inr '''')"

definition error_json :: "string \<Rightarrow> json" where
  "error_json msg = JObject [(''error'', JString msg)]"

definition status_json :: "string \<Rightarrow> json" where
  "status_json s = JObject [(''status'', JString s)]"

section \<open>Lemmas\<close>

lemma contains_error_json [simp]: "contains (error_json m) ''error''"
  by (simp add: error_json_def)

lemma contains_status_json [simp]: "\<not> contains (status_json s) ''error''"
  by (simp add: status_json_def)

lemma member_error_json [simp]: "member (error_json m) ''error'' = JString m"
  by (simp add: error_json_def)

lemma is_string_iff: "is_string v \<longleftrightarrow> (\<exists>s. v = JString s)"
  by (cases v) auto

lemma is_boolean_iff: "is_boolean v \<longleftrightarrow> (\<exists>b. v = JBool b)"
  by (cases v) auto

lemma is_number_integer_iff: "is_number_integer v \<longleftrightarrow> (\<exists>i. v = JInt i)"
  by (cases v) auto

lemma string_or_empty_ok:
  "contains j k \<longrightarrow> is_string (member j k) \<Longrightarrow> \<exists>s. string_or_empty j k = Inr s"
  by (auto simp: string_or_empty_def is_string_iff)

section \<open>What the server relies on from the JSON library\<close>

text \<open>A value of the library: the names of the members of an object are distinct.\<close>

fun json_wf :: "json \<Rightarrow> bool" where
  "json_wf (JArray xs) = (\<forall>x \<in> set xs. json_wf x)"
| "json_wf (JObject ms) = (distinct (map fst ms) \<and> (\<forall>m \<in> set ms. json_wf (snd m)))"
| "json_wf _ = True"

locale json_library =
  fixes parse :: "string \<Rightarrow> exn + json" and dump :: "json \<Rightarrow> exn + string"
  assumes parse_dump: "json_wf j \<Longrightarrow> dump j = Inr s \<Longrightarrow> parse s = Inr j"

end
