(* ===== verification/Env_Utils.thy ===== *)
theory Env_Utils
  imports Prelude
begin

text \<open>
  \<^verbatim>\<open>src/src/utils/env_utils.h\<close>, the truth test of \<^verbatim>\<open>main.cpp\<close> and the two-name lookups of
  \<^verbatim>\<open>storage_service.cpp\<close>. The process environment (\<^verbatim>\<open>getenv\<close>) is an argument.
\<close>

type_synonym environ = "string \<Rightarrow> string option"

section \<open>Definitions\<close>

definition get_env_or_default :: "environ \<Rightarrow> string \<Rightarrow> string \<Rightarrow> string" where
  "get_env_or_default env name fallback =
     (case env name of
        None \<Rightarrow> fallback
      | Some v \<Rightarrow> if v = '''' then fallback else v)"

definition get_env_int_or_default :: "environ \<Rightarrow> string \<Rightarrow> int \<Rightarrow> int" where
  "get_env_int_or_default env name fallback =
     (case env name of
        None \<Rightarrow> fallback
      | Some v \<Rightarrow>
          if v = '''' then fallback
          else
            let (parsed, end_off) = strtol v
            in if end_off = 0 \<or> end_off < length v then fallback else to_int32 parsed)"

definition env_enabled :: "environ \<Rightarrow> string \<Rightarrow> bool" where
  "env_enabled env name =
     (let value = get_env_or_default env name ''false''
      in value = ''1'' \<or> value = ''true'' \<or> value = ''TRUE'' \<or> value = ''yes'' \<or> value = ''YES'')"

definition get_storage_env :: "environ \<Rightarrow> string \<Rightarrow> string \<Rightarrow> string \<Rightarrow> string" where
  "get_storage_env env s3_name minio_name fallback =
     (let s3_value = get_env_or_default env s3_name ''''
      in if s3_value \<noteq> '''' then s3_value else get_env_or_default env minio_name fallback)"

definition get_storage_env_int :: "environ \<Rightarrow> string \<Rightarrow> string \<Rightarrow> int \<Rightarrow> int" where
  "get_storage_env_int env s3_name minio_name fallback =
     (let s3_value = get_env_or_default env s3_name ''''
      in if s3_value \<noteq> '''' then get_env_int_or_default env s3_name fallback
         else get_env_int_or_default env minio_name fallback)"

section \<open>Properties\<close>

lemma env_int_printed:
  assumes "env name = Some (to_string i)" "LONG_MIN \<le> i" "i \<le> LONG_MAX"
  shows "get_env_int_or_default env name fallback = to_int32 i"
  using assms by (simp add: get_env_int_or_default_def strtol_to_string)

lemma env_int_range:
  "int32 fallback \<Longrightarrow> int32 (get_env_int_or_default env name fallback)"
  by (auto simp: get_env_int_or_default_def Let_def split: option.splits prod.splits)

lemma storage_env_int_range:
  "int32 fallback \<Longrightarrow> int32 (get_storage_env_int env a b fallback)"
  by (simp add: get_storage_env_int_def Let_def env_int_range)

lemma env_or_default_nonempty:
  "fallback \<noteq> '''' \<Longrightarrow> get_env_or_default env name fallback \<noteq> ''''"
  by (auto simp: get_env_or_default_def split: option.splits)

lemma storage_env_nonempty:
  "fallback \<noteq> '''' \<Longrightarrow> get_storage_env env a b fallback \<noteq> ''''"
  by (simp add: get_storage_env_def Let_def env_or_default_nonempty)

end
