(* ===== verification/Logger.thy ===== *)
theory Logger
  imports Prelude
begin

text \<open>
  \<^verbatim>\<open>src/src/utils/logger.h\<close> and \<^verbatim>\<open>logger.cpp\<close>: the log-line format and the asynchronous queue
  between the request threads and the one worker thread. Each critical section of the code is one
  step; \<open>written\<close> is what reached \<^verbatim>\<open>stderr\<close> and \<open>logged\<close> records the calls of \<^verbatim>\<open>Logger::log\<close> in
  the order their critical sections ran.
\<close>

section \<open>Definitions\<close>

datatype LogLevel = INFO | ERROR | DEBUG

fun level_to_string :: "LogLevel \<Rightarrow> string" where
  "level_to_string INFO = ''INFO''"
| "level_to_string ERROR = ''ERROR''"
| "level_to_string DEBUG = ''DEBUG''"

text \<open>
  The broken-down time of \<^verbatim>\<open>localtime_r\<close>, and its text by \<^verbatim>\<open>strftime\<close> with \<^verbatim>\<open>%Y-%m-%d %H:%M:%S\<close>: months
  count from 0 and years from 1900, and all fields but the year have two digits.
\<close>

record tm =
  tm_sec :: int
  tm_min :: int
  tm_hour :: int
  tm_mday :: int
  tm_mon :: int
  tm_year :: int

definition two_digits :: "int \<Rightarrow> string" where
  "two_digits n = (if 0 \<le> n \<and> n < 10 then CHR ''0'' # to_string n else to_string n)"

definition get_time :: "tm \<Rightarrow> string" where
  "get_time t = to_string (tm_year t + 1900) @ ''-'' @ two_digits (tm_mon t + 1) @ ''-'' @ two_digits (tm_mday t) @ '' '' @
     two_digits (tm_hour t) @ '':'' @ two_digits (tm_min t) @ '':'' @ two_digits (tm_sec t)"

definition log_line :: "string \<Rightarrow> LogLevel \<Rightarrow> string \<Rightarrow> string" where
  "log_line time level message =
     ''['' @ time @ ''] ['' @ level_to_string level @ ''] '' @ message"

datatype worker_pc = Worker_wait | Worker_print | Worker_exited

record logger =
  log_queue :: "string list"
  running :: bool
  pending :: "string list"
  worker :: worker_pc
  written :: "string list"
  logged :: "string list"

definition logger_start :: "logger \<Rightarrow> bool" where
  "logger_start s = (s = \<lparr>log_queue = [], running = True, pending = [], worker = Worker_wait,
     written = [], logged = []\<rparr>)"

text \<open>The critical section of \<^verbatim>\<open>Logger::log\<close>.\<close>

definition logger_log :: "string \<Rightarrow> LogLevel \<Rightarrow> string \<Rightarrow> logger \<Rightarrow> logger" where
  "logger_log time level message s =
     s\<lparr>log_queue := log_queue s @ [log_line time level message],
       logged := logged s @ [log_line time level message]\<rparr>"

text \<open>The critical section of \<^verbatim>\<open>Logger::~Logger\<close>.\<close>

definition logger_stop :: "logger \<Rightarrow> logger" where
  "logger_stop s = s\<lparr>running := False\<rparr>"

text \<open>
  One locked section of \<^verbatim>\<open>worker_loop\<close>: blocked (\<^const>\<open>None\<close>) until the predicate of
  \<^verbatim>\<open>cv.wait\<close> holds, then either the exit or the splice of the whole queue.
\<close>

definition worker_take :: "logger \<Rightarrow> logger option" where
  "worker_take s =
     (if running s \<and> log_queue s = [] then None
      else if \<not> running s \<and> log_queue s = [] then Some (s\<lparr>worker := Worker_exited\<rparr>)
      else Some (s\<lparr>pending := log_queue s, log_queue := [], worker := Worker_print\<rparr>))"

text \<open>The output loop, one message or its end.\<close>

definition worker_print :: "logger \<Rightarrow> logger" where
  "worker_print s =
     (case pending s of
        [] \<Rightarrow> s\<lparr>worker := Worker_wait\<rparr>
      | m # ms \<Rightarrow> s\<lparr>written := written s @ [m], pending := ms\<rparr>)"

inductive logger_step :: "logger \<Rightarrow> logger \<Rightarrow> bool" where
  step_log: "logger_step s (logger_log time level message s)"
| step_stop: "logger_step s (logger_stop s)"
| step_take: "worker s = Worker_wait \<Longrightarrow> worker_take s = Some t \<Longrightarrow> logger_step s t"
| step_print: "worker s = Worker_print \<Longrightarrow> logger_step s (worker_print s)"

inductive_cases logger_stepE: "logger_step s t"

section \<open>Properties\<close>

text \<open>
  Everything logged is written, about to be written, or queued, in order; the worker only waits
  with nothing pending; and it exits only after a stop.
\<close>

definition logger_inv :: "logger \<Rightarrow> bool" where
  "logger_inv s = (written s @ pending s @ log_queue s = logged s \<and>
     (worker s \<noteq> Worker_print \<longrightarrow> pending s = []) \<and> (worker s = Worker_exited \<longrightarrow> \<not> running s))"

text \<open>
  Every time stamp of a four-digit year has 19 characters, so it fits the buffer of 64 with its NUL, and
  the parts of a line stand at fixed columns.
\<close>

definition tm_ok :: "tm \<Rightarrow> bool" where
  "tm_ok t = (tm_sec t \<in> {0..60} \<and> tm_min t \<in> {0..59} \<and> tm_hour t \<in> {0..23} \<and> tm_mday t \<in> {1..31} \<and>
     tm_mon t \<in> {0..11} \<and> tm_year t + 1900 \<in> {1000..9999})"

lemma length_show_nat: "length (show_nat n) = (if n < 10 then 1 else Suc (length (show_nat (n div 10))))"
  by (subst show_nat.simps) simp

lemma length_two_digits: "0 \<le> n \<Longrightarrow> n < 100 \<Longrightarrow> length (two_digits n) = 2"
  using length_show_nat [of "nat n"] length_show_nat [of "nat n div 10"] length_show_nat [of "nat n"]
  by (auto simp: two_digits_def to_string_def)

lemma length_year: "1000 \<le> n \<Longrightarrow> n \<le> 9999 \<Longrightarrow> length (to_string n) = 4"
proof -
  assume n: "1000 \<le> n" "n \<le> 9999"
  define m where "m = nat n"
  have "\<not> m < 10" "\<not> m div 10 < 10" "\<not> m div 10 div 10 < 10" "m div 10 div 10 div 10 < 10"
    using n by (simp_all add: m_def; linarith)+
  then have "length (show_nat m) = 4"
    using length_show_nat [of m] length_show_nat [of "m div 10"] length_show_nat [of "m div 10 div 10"]
      length_show_nat [of "m div 10 div 10 div 10"] by (simp del: div_mult2_eq)
  with n show ?thesis by (simp add: to_string_def m_def)
qed

lemma get_time_length:
  assumes "tm_ok t"
  shows "length (get_time t) = 19"
  using assms by (simp add: tm_ok_def get_time_def length_two_digits length_year)

lemma log_line_columns:
  assumes "tm_ok t"
  shows "take 19 (drop 1 (log_line (get_time t) level message)) = get_time t \<and>
    drop (25 + length (level_to_string level)) (log_line (get_time t) level message) = message"
proof -
  define pre where "pre = ''['' @ get_time t @ ''] ['' @ level_to_string level @ ''] ''"
  have "log_line (get_time t) level message = pre @ message" "length pre = 25 + length (level_to_string level)"
    using get_time_length [OF assms] by (simp_all add: log_line_def pre_def)
  then have "drop (25 + length (level_to_string level)) (log_line (get_time t) level message) = message" by simp
  then show ?thesis using get_time_length [OF assms] by (simp add: log_line_def)
qed

lemmas logger_defs = logger_log_def logger_stop_def worker_take_def worker_print_def

interpretation lg: invariant_system logger_start logger_step logger_inv
proof unfold_locales
  fix s assume "logger_start s"
  then show "logger_inv s" by (simp add: logger_start_def logger_inv_def)
next
  fix s t assume "logger_inv s" "logger_step s t"
  then show "logger_inv t"
    by (elim logger_stepE)
       (auto simp: logger_inv_def logger_defs split: if_splits list.splits)
qed

text \<open>The worker can always finish what it took: \<open>n\<close> prints empty a batch of \<open>n\<close> messages.\<close>

lemma worker_print_batch:
  "worker s = Worker_print \<Longrightarrow>
   (worker_print ^^ length (pending s)) s = s\<lparr>written := written s @ pending s, pending := []\<rparr>"
proof (induction "pending s" arbitrary: s)
  case Nil
  then show ?case by simp
next
  case (Cons m ms)
  from Cons.hyps(2) [symmetric] have p: "worker_print s = s\<lparr>written := written s @ [m], pending := ms\<rparr>"
    by (simp add: worker_print_def)
  have "(worker_print ^^ length ms) (worker_print s) =
      s\<lparr>written := (written s @ [m]) @ ms, pending := []\<rparr>"
    using Cons.hyps(1) [of "worker_print s"] Cons.prems by (simp add: p)
  with Cons.hyps(2) [symmetric] show ?case by (simp add: funpow_swap1)
qed

section \<open>Correctness\<close>

text \<open>
  C33: Under every interleaving of request threads, worker and destructor, what reached \<^verbatim>\<open>stderr\<close> is a
  prefix of what was logged, in order, and the rest is still in the worker's batch or in the queue.
\<close>

theorem log_lines_kept:
  assumes "reachable logger_start logger_step s"
  shows "written s @ pending s @ log_queue s = logged s"
  using lg.reachable_inv [OF assms] by (simp add: logger_inv_def)

definition logger_one :: logger where
  "logger_one = \<lparr>log_queue = [log_line ''now'' INFO ''hello''], running = True, pending = [],
     worker = Worker_wait, written = [], logged = [log_line ''now'' INFO ''hello'']\<rparr>"

lemma logger_one_reachable: "reachable logger_start logger_step logger_one"
proof (rule reach_step)
  let ?s = "\<lparr>log_queue = [], running = True, pending = [], worker = Worker_wait, written = [], logged = []\<rparr>"
  show "reachable logger_start logger_step ?s"
    by (rule reach_start) (simp add: logger_start_def)
  show "logger_step ?s logger_one"
    using step_log [of ?s "''now''" INFO "''hello''"] by (simp add: logger_one_def logger_log_def)
qed

theorem log_lines_kept_witness:
  "written logger_one @ pending logger_one @ log_queue logger_one = logged logger_one"
  by (rule log_lines_kept [OF logger_one_reachable])

text \<open>
  The worker drains the queue before it exits: a worker that has left its loop has written every
  line whose critical section ran before its last test, and it leaves only after a stop.
\<close>

theorem worker_exit_drained:
  assumes "reachable logger_start logger_step s" "worker s = Worker_wait" "worker_take s = Some t"
    "worker t = Worker_exited"
  shows "written t = logged t \<and> \<not> running t"
  using lg.reachable_inv [OF assms(1)] assms(2-)
  by (auto simp: logger_inv_def worker_take_def split: if_splits)

end
