(* ===== verification/Connection_Pool.thy ===== *)
theory Connection_Pool
  imports Prelude
begin

text \<open>
  \<^verbatim>\<open>src/src/db/connection_pool.h\<close> and \<^verbatim>\<open>connection_pool.cpp\<close>. A \<^verbatim>\<open>PGconn*\<close> is an opaque
  handle (a number); \<^verbatim>\<open>PQconnectdb\<close> with \<^verbatim>\<open>PQstatus\<close> is the argument \<open>connect\<close>. The first part
  are the member functions as state transformers; the second is the system of client threads that
  call them, with the semaphore operation and the locked section of each call as separate steps.
\<close>

section \<open>Member functions\<close>

type_synonym PGconn = nat

record connection_pool =
  max_conn :: int
  cur_conn :: int
  free_conn :: int
  reserve :: nat
  conn_list :: "PGconn list"

definition pool_new :: connection_pool where
  "pool_new = \<lparr>max_conn = 0, cur_conn = 0, free_conn = 0, reserve = 0, conn_list = []\<rparr>"

definition conninfo :: "string \<Rightarrow> string \<Rightarrow> string \<Rightarrow> string \<Rightarrow> int \<Rightarrow> string" where
  "conninfo url user password db_name port =
     ''host='' @ url @ '' port='' @ to_string port @ '' dbname='' @ db_name @
     '' user='' @ user @ '' password='' @ password"

text \<open>
  The loop of \<^verbatim>\<open>init\<close>: \<open>connect i info\<close> is the handle of the \<open>i\<close>-th attempt when its status is
  \<^verbatim>\<open>CONNECTION_OK\<close> and the error text otherwise. A failed attempt ends the process with that text
  reported, which is \<^const>\<open>Inl\<close>.
\<close>

fun connect_all :: "(nat \<Rightarrow> string \<Rightarrow> string + PGconn) \<Rightarrow> string \<Rightarrow> nat \<Rightarrow> nat \<Rightarrow>
    connection_pool \<Rightarrow> string + connection_pool" where
  "connect_all connect info i 0 p = Inr p"
| "connect_all connect info i (Suc n) p =
     (case connect i info of
        Inl error \<Rightarrow> Inl error
      | Inr conn \<Rightarrow>
          connect_all connect info (Suc i) n
            (p\<lparr>conn_list := conn_list p @ [conn], free_conn := free_conn p + 1\<rparr>))"

definition pool_init :: "(nat \<Rightarrow> string \<Rightarrow> string + PGconn) \<Rightarrow> string \<Rightarrow> string \<Rightarrow> string \<Rightarrow> string \<Rightarrow>
    int \<Rightarrow> int \<Rightarrow> connection_pool \<Rightarrow> string + connection_pool" where
  "pool_init connect url user password db_name port max_conn0 p =
     map_sum id (\<lambda>q. q\<lparr>reserve := nat (free_conn q)\<rparr>)
       (connect_all connect (conninfo url user password db_name port) 0 (nat max_conn0)
          (p\<lparr>max_conn := max_conn0\<rparr>))"

text \<open>The locked section of \<^verbatim>\<open>get_connection\<close>; \<^const>\<open>None\<close> is the null pointer.\<close>

definition take_conn :: "connection_pool \<Rightarrow> PGconn option \<times> connection_pool" where
  "take_conn p =
     (case conn_list p of
        [] \<Rightarrow> (None, p)
      | conn # rest \<Rightarrow>
          (Some conn, p\<lparr>conn_list := rest, free_conn := free_conn p - 1, cur_conn := cur_conn p + 1\<rparr>))"

text \<open>\<^verbatim>\<open>reserve->acquire()\<close> returns only while the count is positive.\<close>

definition sem_acquire :: "connection_pool \<Rightarrow> connection_pool" where
  "sem_acquire p = p\<lparr>reserve := reserve p - 1\<rparr>"

text \<open>A call of \<^verbatim>\<open>get_connection\<close> that has returned, hence one that found the count positive.\<close>

definition get_connection :: "connection_pool \<Rightarrow> PGconn option \<times> connection_pool" where
  "get_connection p = take_conn (sem_acquire p)"

definition put_conn :: "PGconn \<Rightarrow> connection_pool \<Rightarrow> connection_pool" where
  "put_conn conn p =
     p\<lparr>conn_list := conn_list p @ [conn], free_conn := free_conn p + 1, cur_conn := cur_conn p - 1\<rparr>"

definition sem_release :: "connection_pool \<Rightarrow> connection_pool" where
  "sem_release p = p\<lparr>reserve := reserve p + 1\<rparr>"

definition release_connection :: "PGconn option \<Rightarrow> connection_pool \<Rightarrow> bool \<times> connection_pool" where
  "release_connection conn p =
     (case conn of
        None \<Rightarrow> (False, p)
      | Some c \<Rightarrow> (True, sem_release (put_conn c p)))"

text \<open>The destructor closes the free handles in order: the calls of \<^verbatim>\<open>PQfinish\<close> and the pool they leave.\<close>

fun finish_all :: "PGconn list \<Rightarrow> PGconn list \<Rightarrow> PGconn list \<times> PGconn list" where
  "finish_all [] closed = (closed, [])"
| "finish_all (conn # rest) closed = finish_all rest (closed @ [conn])"

definition pool_destroy :: "connection_pool \<Rightarrow> PGconn list \<times> connection_pool" where
  "pool_destroy p = (case finish_all (conn_list p) [] of (closed, rest) \<Rightarrow> (closed, p\<lparr>conn_list := rest\<rparr>))"

definition get_free_conn :: "connection_pool \<Rightarrow> int" where
  "get_free_conn p = free_conn p"

section \<open>Concurrent clients\<close>

datatype client_pc =
    Client_idle
  | Client_acquired             \<comment> \<open>past \<^verbatim>\<open>reserve->acquire()\<close>, before the lock\<close>
  | Client_holds "PGconn option"
  | Client_pushed               \<comment> \<open>the connection is back in the list, the semaphore not yet released\<close>

record pool_sys =
  pool :: connection_pool
  clients :: "client_pc list"

inductive pool_step :: "pool_sys \<Rightarrow> pool_sys \<Rightarrow> bool" where
  step_acquire: "i < length (clients s) \<Longrightarrow> clients s ! i = Client_idle \<Longrightarrow> 0 < reserve (pool s) \<Longrightarrow>
    pool_step s (s\<lparr>pool := sem_acquire (pool s), clients := (clients s)[i := Client_acquired]\<rparr>)"
| step_take: "i < length (clients s) \<Longrightarrow> clients s ! i = Client_acquired \<Longrightarrow>
    take_conn (pool s) = (conn, p) \<Longrightarrow>
    pool_step s (s\<lparr>pool := p, clients := (clients s)[i := Client_holds conn]\<rparr>)"
| step_put: "i < length (clients s) \<Longrightarrow> clients s ! i = Client_holds (Some conn) \<Longrightarrow>
    pool_step s (s\<lparr>pool := put_conn conn (pool s), clients := (clients s)[i := Client_pushed]\<rparr>)"
| step_null: "i < length (clients s) \<Longrightarrow> clients s ! i = Client_holds None \<Longrightarrow>
    pool_step s (s\<lparr>clients := (clients s)[i := Client_idle]\<rparr>)"
| step_release: "i < length (clients s) \<Longrightarrow> clients s ! i = Client_pushed \<Longrightarrow>
    pool_step s (s\<lparr>pool := sem_release (pool s), clients := (clients s)[i := Client_idle]\<rparr>)"

inductive_cases pool_stepE: "pool_step s t"

text \<open>The pool as \<^verbatim>\<open>init\<close> leaves it, and any number of threads that hold nothing.\<close>

definition pool_start :: "PGconn list \<Rightarrow> pool_sys \<Rightarrow> bool" where
  "pool_start conns s =
     (distinct conns \<and> conn_list (pool s) = conns \<and> reserve (pool s) = length conns \<and>
      free_conn (pool s) = int (length conns) \<and> cur_conn (pool s) = 0 \<and>
      max_conn (pool s) = int (length conns) \<and> (\<forall>c \<in> set (clients s). c = Client_idle))"

fun held_by :: "client_pc \<Rightarrow> PGconn list" where
  "held_by (Client_holds (Some c)) = [c]"
| "held_by _ = []"

definition held :: "client_pc list \<Rightarrow> PGconn list" where
  "held cs = concat (map held_by cs)"

definition pool_inv :: "PGconn list \<Rightarrow> pool_sys \<Rightarrow> bool" where
  "pool_inv conns s =
     (distinct (conn_list (pool s) @ held (clients s)) \<and>
      set (conn_list (pool s) @ held (clients s)) = set conns \<and>
      Client_holds None \<notin> set (clients s) \<and>
      free_conn (pool s) = int (length (conn_list (pool s))) \<and>
      cur_conn (pool s) = int (length (held (clients s))) \<and>
      reserve (pool s) + how_many (\<lambda>c. c = Client_acquired) (clients s) +
        how_many (\<lambda>c. c = Client_pushed) (clients s) = length (conn_list (pool s)))"

section \<open>Properties\<close>

lemmas pool_defs = take_conn_def sem_acquire_def put_conn_def sem_release_def

lemma held_split:
  "i < length cs \<Longrightarrow> held cs = held (take i cs) @ held_by (cs ! i) @ held (drop (Suc i) cs)"
  by (subst id_take_nth_drop [of i cs]) (auto simp: held_def)

lemma held_update:
  "i < length cs \<Longrightarrow> held (cs[i := x]) = held (take i cs) @ held_by x @ held (drop (Suc i) cs)"
  by (subst held_split [of i]) (auto simp: held_def)

lemma held_same: "i < length cs \<Longrightarrow> held_by (cs ! i) = held_by x \<Longrightarrow> held (cs[i := x]) = held cs"
  by (simp add: held_update held_split [of i cs])

lemma held_idle: "\<forall>c \<in> set cs. c = Client_idle \<Longrightarrow> held cs = []"
  by (auto simp: held_def)

lemma none_update:
  "x \<noteq> Client_holds None \<Longrightarrow> Client_holds None \<notin> set cs \<Longrightarrow> Client_holds None \<notin> set (cs[i := x])"
  using set_update_subset_insert [of cs i x] by auto

lemma how_many_idle:
  "\<forall>c \<in> set cs. c = Client_idle \<Longrightarrow> \<not> p Client_idle \<Longrightarrow> how_many p cs = 0"
  by (auto simp: how_many_def filter_empty_conv)

lemma pool_start_inv: "pool_start conns s \<Longrightarrow> pool_inv conns s"
  by (auto simp: pool_start_def pool_inv_def held_idle how_many_idle)

lemma pool_step_inv:
  assumes inv: "pool_inv conns s" and step: "pool_step s t"
  shows "pool_inv conns t"
  using step
proof cases
  case (step_acquire i)
  with inv show ?thesis
    by (auto simp: pool_inv_def pool_defs held_same how_many_gain how_many_same none_update)
next
  case (step_take i conn p)
  then have "0 < how_many (\<lambda>c. c = Client_acquired) (clients s)"
    by (auto intro: how_many_pos)
  with inv obtain c rest where l: "conn_list (pool s) = c # rest"
    by (cases "conn_list (pool s)") (auto simp: pool_inv_def)
  have h: "held (clients s) = held (take i (clients s)) @ held (drop (Suc i) (clients s))"
    using step_take by (simp add: held_split [of i])
  have t: "conn = Some c" "pool t = (pool s)\<lparr>conn_list := rest, free_conn := free_conn (pool s) - 1,
      cur_conn := cur_conn (pool s) + 1\<rparr>" "clients t = (clients s)[i := Client_holds (Some c)]"
    using step_take l by (auto simp: take_conn_def)
  have "held (clients t) = held (take i (clients s)) @ c # held (drop (Suc i) (clients s))"
    using step_take t by (simp add: held_update)
  moreover have "Suc (how_many (\<lambda>c. c = Client_acquired) (clients t)) =
      how_many (\<lambda>c. c = Client_acquired) (clients s)"
    using step_take t by (simp add: how_many_lose)
  moreover have "how_many (\<lambda>c. c = Client_pushed) (clients t) = how_many (\<lambda>c. c = Client_pushed) (clients s)"
    using step_take t by (simp add: how_many_same)
  moreover have "Client_holds None \<notin> set (clients t)"
    using inv t by (simp add: none_update pool_inv_def)
  ultimately show ?thesis
    using inv h l t(2) by (auto simp: pool_inv_def)
next
  case (step_put i conn)
  have h: "held (clients s) = held (take i (clients s)) @ conn # held (drop (Suc i) (clients s))"
    using step_put by (simp add: held_split [of i])
  show ?thesis
    using inv step_put h
    by (auto simp: pool_inv_def pool_defs held_update how_many_same how_many_gain none_update)
next
  case (step_null i)
  with inv show ?thesis
    by (auto simp: pool_inv_def dest: nth_mem)
next
  case (step_release i)
  with inv how_many_lose [of i "clients s" "\<lambda>c. c = Client_pushed" Client_idle] show ?thesis
    by (auto simp: pool_inv_def pool_defs held_same how_many_same none_update)
qed

interpretation cp: token_queue "pool_start conns" pool_step "pool_inv conns" "\<lambda>_. True"
    "\<lambda>s. reserve (pool s)" "\<lambda>s. how_many (\<lambda>c. c = Client_acquired) (clients s)"
    "\<lambda>s. how_many (\<lambda>c. c = Client_pushed) (clients s)" "\<lambda>s. conn_list (pool s)"
  for conns
proof unfold_locales
  show "pool_start conns s \<Longrightarrow> pool_inv conns s" for s
    by (rule pool_start_inv)
  show "pool_inv conns s \<Longrightarrow> pool_step s t \<Longrightarrow> pool_inv conns t" for s t
    by (rule pool_step_inv)
qed (simp add: pool_inv_def)

text \<open>What \<^verbatim>\<open>init\<close> leaves: the handles in order, all free and all covered by the semaphore.\<close>

lemma connect_all_ok:
  "(\<And>k. k < n \<Longrightarrow> connect (i + k) info = Inr (h (i + k))) \<Longrightarrow>
   connect_all connect info i n p =
     Inr (p\<lparr>conn_list := conn_list p @ map h [i..<i + n], free_conn := free_conn p + int n\<rparr>)"
proof (induction n arbitrary: i p)
  case 0
  then show ?case by simp
next
  case (Suc n)
  have "connect i info = Inr (h i)" using Suc.prems [of 0] by simp
  moreover have "connect (Suc i + k) info = Inr (h (Suc i + k))" if "k < n" for k
    using Suc.prems [of "Suc k"] that by simp
  ultimately show ?case
    using Suc.IH [of "Suc i"] by (simp add: upt_conv_Cons del: upt_Suc)
qed

lemma connect_all_fail:
  "k < n \<Longrightarrow> connect (i + k) info = Inl e \<Longrightarrow> \<exists>e. connect_all connect info i n p = Inl e"
proof (induction n arbitrary: i k p)
  case 0
  then show ?case by simp
next
  case (Suc n)
  then show ?case
    by (cases k) (auto split: sum.splits)
qed

lemma connect_all_result:
  "connect_all connect info i n p = Inr q \<Longrightarrow> length (conn_list q) = length (conn_list p) + n \<and>
   free_conn q = free_conn p + int n \<and> cur_conn q = cur_conn p \<and> max_conn q = max_conn p"
proof (induction n arbitrary: i p)
  case 0
  then show ?case by simp
next
  case (Suc n)
  then show ?case by (auto split: sum.splits)
qed

lemma pool_init_result:
  assumes "pool_init connect url user password db_name port 10 pool_new = Inr q"
  shows "length (conn_list q) = 10 \<and> free_conn q = 10 \<and> reserve q = 10 \<and> cur_conn q = 0 \<and> max_conn q = 10"
proof -
  let ?r = "connect_all connect (conninfo url user password db_name port) 0 10 (pool_new\<lparr>max_conn := 10\<rparr>)"
  obtain q' where q: "?r = Inr q'" "q = q'\<lparr>reserve := nat (free_conn q')\<rparr>"
    using assms by (cases ?r) (auto simp: pool_init_def)
  from connect_all_result [OF q(1)] show ?thesis by (simp add: q(2) pool_new_def)
qed

lemma finish_all_run: "finish_all conns closed = (closed @ conns, [])"
  by (induction conns arbitrary: closed) simp_all

lemma pool_destroy_run: "pool_destroy p = (conn_list p, p\<lparr>conn_list := []\<rparr>)"
  by (simp add: pool_destroy_def finish_all_run)

section \<open>Correctness\<close>

text \<open>The pool of the witnesses: two handles and two threads, one of which has acquired a token.\<close>

definition sys_start :: pool_sys where
  "sys_start = \<lparr>pool = \<lparr>max_conn = 2, cur_conn = 0, free_conn = 2, reserve = 2, conn_list = [10, 11]\<rparr>,
     clients = [Client_idle, Client_idle]\<rparr>"

definition sys_acquired :: pool_sys where
  "sys_acquired = \<lparr>pool = \<lparr>max_conn = 2, cur_conn = 0, free_conn = 2, reserve = 1, conn_list = [10, 11]\<rparr>,
     clients = [Client_acquired, Client_idle]\<rparr>"

definition sys_leased :: pool_sys where
  "sys_leased = \<lparr>pool = \<lparr>max_conn = 2, cur_conn = 1, free_conn = 1, reserve = 1, conn_list = [11]\<rparr>,
     clients = [Client_holds (Some 10), Client_idle]\<rparr>"

lemma sys_acquired_reachable: "reachable (pool_start [10, 11]) pool_step sys_acquired"
proof (rule reach_step)
  show "reachable (pool_start [10, 11]) pool_step sys_start"
    by (rule reach_start) (simp add: pool_start_def sys_start_def)
  show "pool_step sys_start sys_acquired"
    using step_acquire [of 0 sys_start] by (simp add: sys_start_def sys_acquired_def sem_acquire_def)
qed

lemma sys_leased_reachable: "reachable (pool_start [10, 11]) pool_step sys_leased"
proof (rule reach_step [OF sys_acquired_reachable])
  show "pool_step sys_acquired sys_leased"
    using step_take [of 0 sys_acquired "Some 10" "pool sys_leased"]
    by (simp add: sys_acquired_def sys_leased_def take_conn_def)
qed

text \<open>
  C16: With any number of threads leasing and returning connections concurrently, every handle is in
  the free list or leased to exactly one thread, none is lost, no thread is given a null pointer (so the
  \<^verbatim>\<open>DB connection failed\<close> branches of the DAOs are dead), and the counters \<^verbatim>\<open>free_conn\<close> and
  \<^verbatim>\<open>cur_conn\<close> are exact. When no thread holds a connection the destructor closes every handle once.
\<close>

theorem connections_exclusive:
  assumes "reachable (pool_start conns) pool_step s"
  shows "distinct (conn_list (pool s) @ held (clients s)) \<and>
    set (conn_list (pool s) @ held (clients s)) = set conns \<and>
    Client_holds None \<notin> set (clients s) \<and>
    get_free_conn (pool s) = int (length (conn_list (pool s))) \<and>
    cur_conn (pool s) = int (length (held (clients s))) \<and>
    (held (clients s) = [] \<longrightarrow> distinct (fst (pool_destroy (pool s))) \<and> set (fst (pool_destroy (pool s))) = set conns)"
  using cp.reachable_inv [OF assms] by (auto simp: pool_inv_def get_free_conn_def pool_destroy_run)

theorem connections_exclusive_witness:
  "distinct (conn_list (pool sys_leased) @ held (clients sys_leased)) \<and>
    set (conn_list (pool sys_leased) @ held (clients sys_leased)) = set [10, 11] \<and>
    cur_conn (pool sys_leased) = int (length (held (clients sys_leased)))"
  using connections_exclusive [OF sys_leased_reachable] by blast

text \<open>
  \<^verbatim>\<open>get_connection\<close> never returns a null pointer after \<^verbatim>\<open>init\<close>: a thread past the semaphore finds a
  free handle, so no client ever holds \<^const>\<open>None\<close> and the \<^verbatim>\<open>DB connection failed\<close> branches of the DAOs
  are dead.
\<close>

theorem get_connection_not_null:
  assumes "reachable (pool_start conns) pool_step s" "i < length (clients s)"
  shows "clients s ! i \<noteq> Client_holds None \<and>
    (clients s ! i = Client_acquired \<longrightarrow> fst (take_conn (pool s)) \<noteq> None)"
proof -
  have "clients s ! i \<noteq> Client_holds None"
    using cp.reachable_inv [OF assms(1)] assms(2) by (auto simp: pool_inv_def dest: nth_mem)
  moreover have "conn_list (pool s) \<noteq> []" if "clients s ! i = Client_acquired"
    using cp.claimed_nonempty [OF assms(1)] how_many_pos [OF assms(2)] that by simp
  ultimately show ?thesis by (auto simp: take_conn_def split: list.splits)
qed

end
