(* ===== verification/World.thy ===== *)
theory World
  imports Json Env_Utils Logger Connection_Pool
begin

text \<open>
  The state that one request handler reads and writes, and the code the server calls that is not
  part of the repository. \<open>externals\<close> collects the third-party functions (libpq, hiredis, jwt-cpp,
  OpenSSL, nlohmann-json, the MinIO and AWS clients, the process environment); a definition that
  uses one of them takes the record as its argument. \<open>world\<close> is the mutable state: the contents of
  the external stores (of any type), the two connection pools, the error-message statics of the
  DAOs, the clock, the calls made to \<^verbatim>\<open>Logger::log\<close> and
  the text written to \<^verbatim>\<open>std::cout\<close>.
\<close>

section \<open>Library types\<close>

datatype ExecStatus = PGRES_COMMAND_OK | PGRES_TUPLES_OK | PGRES_FATAL_ERROR

text \<open>A result: its status, the text fields of its rows (\<^const>\<open>None\<close> for NULL), the affected count.\<close>

record PGresult =
  pg_status :: ExecStatus
  pg_rows :: "string option list list"
  pg_cmd_tuples :: string

type_synonym redis_context = nat

datatype redis_cmd =
    Redis_AUTH string
  | Redis_PING
  | Redis_GET string
  | Redis_SETEX string int string
  | Redis_DEL string

datatype redis_reply =
    REPLY_STRING string
  | REPLY_STATUS string
  | REPLY_INTEGER int
  | REPLY_NIL
  | REPLY_ERROR string

datatype redis_connect_result = Connect_null | Connect_err redis_context string | Connect_ok redis_context

datatype redis_tls_result = Tls_no_context | Tls_handshake_failed string | Tls_ok

datatype http_method = HTTP_GET | HTTP_PUT

text \<open>Claims of a token: issuer, subject, and the time points of issue and expiry in milliseconds.\<close>

record jwt_claims =
  jwt_iss :: string
  jwt_sub :: string
  jwt_iat :: int
  jwt_exp :: int

text \<open>A storage client: host, scheme, region and credentials.\<close>

record s3_client =
  s3_host :: string
  s3_https :: bool
  s3_region :: string
  s3_access :: string
  s3_secret :: string

section \<open>Externals and world\<close>

record ('db, 'rd, 'ob) externals =
  environ :: environ
  pg_exec :: "PGconn \<Rightarrow> string \<Rightarrow> string list \<Rightarrow> 'db \<Rightarrow> PGresult option \<times> 'db"
  pg_errmsg :: "PGconn \<Rightarrow> 'db \<Rightarrow> string"
  redis_connect :: "string \<Rightarrow> int \<Rightarrow> 'rd \<Rightarrow> redis_connect_result \<times> 'rd"
  redis_tls :: "redis_context \<Rightarrow> string \<Rightarrow> 'rd \<Rightarrow> redis_tls_result \<times> 'rd"
  redis_exec :: "redis_context \<Rightarrow> redis_cmd \<Rightarrow> 'rd \<Rightarrow> redis_reply option \<times> 'rd"
  redis_errstr :: "redis_context \<Rightarrow> 'rd \<Rightarrow> string"
  json_parse :: "string \<Rightarrow> exn + json"
  json_dump :: "json \<Rightarrow> exn + string"
  jwt_sign :: "jwt_claims \<Rightarrow> string \<Rightarrow> exn + string"
  jwt_decode :: "string \<Rightarrow> exn + string"
  jwt_verify :: "string \<Rightarrow> string \<Rightarrow> int \<Rightarrow> string \<Rightarrow> exn + unit"
  jwt_subject :: "string \<Rightarrow> exn + string"
  SHA256 :: "string \<Rightarrow> char list"
  minio_presign :: "s3_client \<Rightarrow> http_method \<Rightarrow> string \<Rightarrow> string \<Rightarrow> int \<Rightarrow> exn + (string + string)"
  aws_presign :: "s3_client \<Rightarrow> http_method \<Rightarrow> string \<Rightarrow> string \<Rightarrow> int \<Rightarrow> exn + string"
  minio_remove :: "s3_client \<Rightarrow> string \<Rightarrow> string \<Rightarrow> 'ob \<Rightarrow> (exn + (string + unit)) \<times> 'ob"

text \<open>
  The private members of \<^verbatim>\<open>RedisClient\<close>; \<open>rc_freed\<close> is the history of its \<^verbatim>\<open>redisFree\<close> calls.
\<close>

record redis_client =
  rc_host :: string
  rc_port :: int
  rc_password :: string
  rc_use_tls :: bool
  rc_available :: bool
  rc_max_conn :: int
  rc_conn_pool :: "redis_context list"
  rc_freed :: "redis_context list"

record ('db, 'rd, 'ob) world =
  db :: 'db
  redis_srv :: 'rd
  objects :: 'ob
  pg_pool :: connection_pool
  redis :: redis_client
  resource_msg :: string
  user_msg :: string
  clock_ms :: int
  log_calls :: "(LogLevel \<times> string) list"
  console :: string

type_synonym ('db, 'rd, 'ob, 'a) action = "(('db, 'rd, 'ob) world, 'a) state"

section \<open>Basic actions\<close>

definition log :: "LogLevel \<Rightarrow> string \<Rightarrow> ('db, 'rd, 'ob, unit) action" where
  "log level message = State_Monad.update (\<lambda>w. w\<lparr>log_calls := log_calls w @ [(level, message)]\<rparr>)"

definition set_resource_msg :: "string \<Rightarrow> ('db, 'rd, 'ob, unit) action" where
  "set_resource_msg m = State_Monad.update (\<lambda>w. w\<lparr>resource_msg := m\<rparr>)"

definition set_user_msg :: "string \<Rightarrow> ('db, 'rd, 'ob, unit) action" where
  "set_user_msg m = State_Monad.update (\<lambda>w. w\<lparr>user_msg := m\<rparr>)"

lemma run_log [simp]:
  "run_state (log level message) w = ((), w\<lparr>log_calls := log_calls w @ [(level, message)]\<rparr>)"
  by (simp add: log_def)

lemma run_set_resource_msg [simp]: "run_state (set_resource_msg m) w = ((), w\<lparr>resource_msg := m\<rparr>)"
  by (simp add: set_resource_msg_def)

lemma run_set_user_msg [simp]: "run_state (set_user_msg m) w = ((), w\<lparr>user_msg := m\<rparr>)"
  by (simp add: set_user_msg_def)

text \<open>Two worlds that agree on everything the handlers act on: only the log may differ.\<close>

definition same_but_log :: "('db, 'rd, 'ob) world \<Rightarrow> ('db, 'rd, 'ob) world \<Rightarrow> bool" where
  "same_but_log w w' = (\<exists>l. w' = w\<lparr>log_calls := l\<rparr>)"

lemma same_but_log_refl [simp, intro]: "same_but_log w w"
  unfolding same_but_log_def by (rule exI [of _ "log_calls w"]) simp

lemma same_but_log_upd [simp, intro]: "same_but_log w (w\<lparr>log_calls := l\<rparr>)"
  by (auto simp: same_but_log_def)

lemma same_but_log_trans: "same_but_log u v \<Longrightarrow> same_but_log v w \<Longrightarrow> same_but_log u w"
  by (auto simp: same_but_log_def)

end
