(* ===== verification/Dao_Util.thy ===== *)
theory Dao_Util
  imports World
begin

text \<open>
  \<^verbatim>\<open>src/src/dao/dao_util.h\<close> and what both DAO files share: the guard that leases a PostgreSQL
  connection for the extent of one call (\<^verbatim>\<open>ConnectionPtr\<close>) and the parameterised statement.
\<close>

section \<open>Definitions\<close>

text \<open>\<^verbatim>\<open>ConnectionPtr conn(connection_pool::get_instance()->get_connection())\<close>.\<close>

definition pg_lease :: "('db, 'rd, 'ob, PGconn option) action" where
  "pg_lease = State (\<lambda>w. let (c, p) = get_connection (pg_pool w) in (c, w\<lparr>pg_pool := p\<rparr>))"

text \<open>\<^verbatim>\<open>ConnectionReleaser\<close>: the guard returns a leased connection.\<close>

definition pg_release :: "PGconn \<Rightarrow> ('db, 'rd, 'ob, unit) action" where
  "pg_release c = State_Monad.update (\<lambda>w. w\<lparr>pg_pool := snd (release_connection (Some c) (pg_pool w))\<rparr>)"

definition PQexecParams :: "('db, 'rd, 'ob) externals \<Rightarrow> PGconn \<Rightarrow> string \<Rightarrow> string list \<Rightarrow>
    ('db, 'rd, 'ob, PGresult option) action" where
  "PQexecParams E c sql values = State (\<lambda>w.
     let (r, d) = pg_exec E c sql (map c_str values) (db w) in (r, w\<lparr>db := d\<rparr>))"

definition PQerrorMessage :: "('db, 'rd, 'ob) externals \<Rightarrow> PGconn \<Rightarrow> ('db, 'rd, 'ob, string) action" where
  "PQerrorMessage E c = State (\<lambda>w. (pg_errmsg E c (db w), w))"

text \<open>
  \<^verbatim>\<open>DaoUtil::command_ok\<close> on a live connection; \<open>set_msg\<close> assigns the caller's message static. The
  two failing branches of the code store and log the same text.
\<close>

definition command_ok :: "('db, 'rd, 'ob) externals \<Rightarrow> PGconn \<Rightarrow> PGresult option \<Rightarrow> string \<Rightarrow>
    (string \<Rightarrow> ('db, 'rd, 'ob, unit) action) \<Rightarrow> ('db, 'rd, 'ob, bool) action" where
  "command_ok E c result sql set_msg =
     (case result of
        None \<Rightarrow> do {
          e \<leftarrow> PQerrorMessage E c;
          set_msg (''Query failed: '' @ e);
          log ERROR (''Query failed: '' @ e @ '' SQL: '' @ sql);
          State_Monad.return False }
      | Some r \<Rightarrow>
          if pg_status r = PGRES_COMMAND_OK then State_Monad.return True
          else do {
            e \<leftarrow> PQerrorMessage E c;
            set_msg (''Query failed: '' @ e);
            log ERROR (''Query failed: '' @ e @ '' SQL: '' @ sql);
            State_Monad.return False })"

definition affected_rows :: "PGresult option \<Rightarrow> bool" where
  "affected_rows result =
     (case result of
        None \<Rightarrow> False
      | Some r \<Rightarrow> pg_cmd_tuples r \<noteq> '''' \<and> atoi (pg_cmd_tuples r) > 0)"

text \<open>\<^verbatim>\<open>PQgetvalue\<close>: the empty string for NULL.\<close>

definition PQgetvalue :: "string option list \<Rightarrow> nat \<Rightarrow> string" where
  "PQgetvalue row col =
     (if col < length row then (case row ! col of None \<Rightarrow> '''' | Some v \<Rightarrow> v) else '''')"

definition pg_bool_value :: "string option list \<Rightarrow> nat \<Rightarrow> bool" where
  "pg_bool_value row col =
     (case PQgetvalue row col of
        [] \<Rightarrow> False
      | ch # _ \<Rightarrow> ch = CHR ''t'' \<or> ch = CHR ''1'')"

definition nullable_value :: "string option list \<Rightarrow> nat \<Rightarrow> string" where
  "nullable_value row col = PQgetvalue row col"

text \<open>The error branch shared by the three SELECT functions.\<close>

definition select_failed :: "('db, 'rd, 'ob) externals \<Rightarrow> PGconn \<Rightarrow> string \<Rightarrow>
    (string \<Rightarrow> ('db, 'rd, 'ob, unit) action) \<Rightarrow> ('db, 'rd, 'ob, unit) action" where
  "select_failed E c sql set_msg = do {
     e \<leftarrow> PQerrorMessage E c;
     set_msg (''Query failed: '' @ e);
     log ERROR (''Query failed: '' @ e @ '' SQL: '' @ sql)
   }"

definition tuples_ok :: "PGresult option \<Rightarrow> bool" where
  "tuples_ok result = (case result of None \<Rightarrow> False | Some r \<Rightarrow> pg_status r = PGRES_TUPLES_OK)"

section \<open>Lemmas\<close>

text \<open>The pool as a client finds it between requests: a free connection, covered by the semaphore.\<close>

definition pool_ready :: "connection_pool \<Rightarrow> bool" where
  "pool_ready p = (conn_list p \<noteq> [] \<and> reserve p = length (conn_list p))"

text \<open>The pool after a lease that was returned: its queue is rotated, its counters are back.\<close>

definition pool_rotated :: "connection_pool \<Rightarrow> connection_pool" where
  "pool_rotated p = p\<lparr>conn_list := tl (conn_list p) @ [hd (conn_list p)]\<rparr>"

lemma pool_ready_rotated [simp]: "pool_ready p \<Longrightarrow> pool_ready (pool_rotated p)"
  by (auto simp: pool_ready_def pool_rotated_def)

lemma run_pg_lease:
  "pool_ready (pg_pool w) \<Longrightarrow> run_state pg_lease w = (Some (hd (conn_list (pg_pool w))),
     w\<lparr>pg_pool := (pg_pool w)\<lparr>reserve := reserve (pg_pool w) - 1, conn_list := tl (conn_list (pg_pool w)),
        free_conn := free_conn (pg_pool w) - 1, cur_conn := cur_conn (pg_pool w) + 1\<rparr>\<rparr>)"
  by (cases "conn_list (pg_pool w)")
     (auto simp: pg_lease_def pool_ready_def get_connection_def take_conn_def sem_acquire_def)

lemma run_pg_release [simp]:
  "run_state (pg_release c) w = ((), w\<lparr>pg_pool := sem_release (put_conn c (pg_pool w))\<rparr>)"
  by (simp add: pg_release_def release_connection_def)

lemma lease_release:
  "pool_ready p \<Longrightarrow>
   sem_release (put_conn (hd (conn_list p)) (p\<lparr>reserve := reserve p - Suc 0, conn_list := tl (conn_list p),
     free_conn := free_conn p - 1, cur_conn := cur_conn p + 1\<rparr>)) = pool_rotated p"
  by (auto simp: pool_rotated_def sem_release_def put_conn_def pool_ready_def)

lemma run_PQexecParams [simp]:
  "run_state (PQexecParams E c sql vs) w =
     (fst (pg_exec E c sql (map c_str vs) (db w)), w\<lparr>db := snd (pg_exec E c sql (map c_str vs) (db w))\<rparr>)"
  by (simp add: PQexecParams_def split_def Let_def)

lemma run_PQerrorMessage [simp]:
  "run_state (PQerrorMessage E c) w = (pg_errmsg E c (db w), w)"
  by (simp add: PQerrorMessage_def)

section \<open>The two outcomes of a statement\<close>

definition failed :: "PGresult option \<Rightarrow> bool" where
  "failed r = (case r of None \<Rightarrow> True | Some res \<Rightarrow> pg_status res = PGRES_FATAL_ERROR)"

definition commanded :: "PGresult option \<Rightarrow> nat \<Rightarrow> bool" where
  "commanded r n = (\<exists>res. r = Some res \<and> pg_status res = PGRES_COMMAND_OK \<and> pg_cmd_tuples res = to_string (int n))"

lemma failed_simps: "failed r \<Longrightarrow> \<not> tuples_ok r"
  by (auto simp: failed_def tuples_ok_def split: option.splits)

lemma commanded_affected: "commanded r n \<Longrightarrow> n \<le> 1 \<Longrightarrow> affected_rows r = (n = 1)"
  by (cases n) (auto simp: commanded_def affected_rows_def int32_def int_bounds)

lemma command_done: "commanded r n \<Longrightarrow> run_state (command_ok E c r sql f) w = (True, w)"
  by (auto simp: commanded_def command_ok_def)

end
