(* ===== verification/Resource_Dao.thy ===== *)
theory Resource_Dao
  imports Dao_Util
begin

text \<open>
  \<^verbatim>\<open>src/src/dao/resource_dao.h\<close> and \<^verbatim>\<open>resource_dao.cpp\<close>: the five statements on the
  \<^verbatim>\<open>resources\<close> table, in the runs without an exception; \<open>Dao_Exceptions\<close> has the others.
\<close>

section \<open>Definitions\<close>

record Resource =
  res_id :: int
  res_user_id :: int
  res_title :: string
  res_content :: string
  res_is_file :: bool

definition sql_insert_resource :: string where
  "sql_insert_resource =
     ''INSERT INTO resources (user_id, title, content, is_file) VALUES ($1::int, $2, $3, $4::boolean)''"

definition sql_select_resources :: string where
  "sql_select_resources = ''SELECT id, title, content, is_file FROM resources WHERE user_id=$1::int''"

definition sql_select_resource :: string where
  "sql_select_resource =
     ''SELECT id, title, content, is_file FROM resources WHERE user_id=$1::int AND id=$2::int''"

definition sql_update_resource :: string where
  "sql_update_resource =
     ''UPDATE resources SET title=$1, content=$2 WHERE user_id=$3::int AND id=$4::int''"

definition sql_delete_resource :: string where
  "sql_delete_resource = ''DELETE FROM resources WHERE id=$1::int AND user_id=$2::int''"

definition set_resource_dao_error :: "string \<Rightarrow> ('db, 'rd, 'ob, unit) action" where
  "set_resource_dao_error message = do { set_resource_msg message; log ERROR message }"

definition dao_create_resource :: "('db, 'rd, 'ob) externals \<Rightarrow> Resource \<Rightarrow> ('db, 'rd, 'ob, bool) action" where
  "dao_create_resource E resource = do {
     set_resource_msg '''';
     conn \<leftarrow> pg_lease;
     (case conn of
        None \<Rightarrow> do { set_resource_dao_error ''DB connection failed.''; State_Monad.return False }
      | Some c \<Rightarrow> do {
          result \<leftarrow> PQexecParams E c sql_insert_resource
            [to_string (res_user_id resource), res_title resource, res_content resource,
             if res_is_file resource then ''true'' else ''false''];
          ok \<leftarrow> command_ok E c result sql_insert_resource set_resource_msg;
          pg_release c;
          State_Monad.return ok
        })
   }"

text \<open>One result row of the two SELECT statements; the owner field of the struct is not assigned.\<close>

definition row_to_resource :: "string option list \<Rightarrow> Resource" where
  "row_to_resource row =
     \<lparr>res_id = atoi (PQgetvalue row 0), res_user_id = 0, res_title = nullable_value row 1,
      res_content = nullable_value row 2, res_is_file = pg_bool_value row 3\<rparr>"

definition dao_get_resources :: "('db, 'rd, 'ob) externals \<Rightarrow> int \<Rightarrow> ('db, 'rd, 'ob, Resource list) action" where
  "dao_get_resources E user_id = do {
     set_resource_msg '''';
     conn \<leftarrow> pg_lease;
     (case conn of
        None \<Rightarrow> do { set_resource_dao_error ''DB connection failed.''; State_Monad.return [] }
      | Some c \<Rightarrow> do {
          result \<leftarrow> PQexecParams E c sql_select_resources [to_string user_id];
          if \<not> tuples_ok result then do {
            select_failed E c sql_select_resources set_resource_msg;
            pg_release c;
            State_Monad.return [] }
          else do {
            pg_release c;
            State_Monad.return (map row_to_resource (pg_rows (the result))) }
        })
   }"

definition dao_get_resource :: "('db, 'rd, 'ob) externals \<Rightarrow> int \<Rightarrow> int \<Rightarrow>
    ('db, 'rd, 'ob, Resource option) action" where
  "dao_get_resource E user_id rid = do {
     set_resource_msg '''';
     conn \<leftarrow> pg_lease;
     (case conn of
        None \<Rightarrow> do { set_resource_dao_error ''DB connection failed.''; State_Monad.return None }
      | Some c \<Rightarrow> do {
          result \<leftarrow> PQexecParams E c sql_select_resource [to_string user_id, to_string rid];
          if \<not> tuples_ok result then do {
            select_failed E c sql_select_resource set_resource_msg;
            pg_release c;
            State_Monad.return None }
          else (case pg_rows (the result) of
              [] \<Rightarrow> do {
                set_resource_dao_error ''Resource not found.'';
                pg_release c;
                State_Monad.return None }
            | row # _ \<Rightarrow> do {
                pg_release c;
                State_Monad.return (Some (row_to_resource row)) })
        })
   }"

text \<open>The common ending of UPDATE and DELETE: a command that changed no row is an error.\<close>

definition require_affected :: "PGresult option \<Rightarrow> string \<Rightarrow> bool \<Rightarrow> ('db, 'rd, 'ob, bool) action" where
  "require_affected result message success =
     (if success \<and> \<not> affected_rows result
      then do { set_resource_dao_error message; State_Monad.return False }
      else State_Monad.return success)"

definition dao_update_resource :: "('db, 'rd, 'ob) externals \<Rightarrow> Resource \<Rightarrow> ('db, 'rd, 'ob, bool) action" where
  "dao_update_resource E resource = do {
     set_resource_msg '''';
     conn \<leftarrow> pg_lease;
     (case conn of
        None \<Rightarrow> do { set_resource_dao_error ''DB connection failed.''; State_Monad.return False }
      | Some c \<Rightarrow> do {
          result \<leftarrow> PQexecParams E c sql_update_resource
            [res_title resource, res_content resource, to_string (res_user_id resource),
             to_string (res_id resource)];
          ok \<leftarrow> command_ok E c result sql_update_resource set_resource_msg;
          success \<leftarrow> require_affected result ''No change proceeded.'' ok;
          pg_release c;
          State_Monad.return success
        })
   }"

definition dao_delete_resource :: "('db, 'rd, 'ob) externals \<Rightarrow> int \<Rightarrow> int \<Rightarrow> ('db, 'rd, 'ob, bool) action" where
  "dao_delete_resource E user_id rid = do {
     set_resource_msg '''';
     conn \<leftarrow> pg_lease;
     (case conn of
        None \<Rightarrow> do { set_resource_dao_error ''DB connection failed.''; State_Monad.return False }
      | Some c \<Rightarrow> do {
          log DEBUG (''SQL: '' @ sql_delete_resource);
          result \<leftarrow> PQexecParams E c sql_delete_resource [to_string rid, to_string user_id];
          ok \<leftarrow> command_ok E c result sql_delete_resource set_resource_msg;
          success \<leftarrow> require_affected result ''Resource not found.'' ok;
          pg_release c;
          State_Monad.return success
        })
   }"

section \<open>Connections are returned\<close>

lemmas resource_dao_defs = dao_create_resource_def dao_get_resources_def dao_get_resource_def
  dao_update_resource_def dao_delete_resource_def

lemmas resource_dao_steps = run_pg_lease command_ok_def select_failed_def require_affected_def
  set_resource_dao_error_def lease_release split_def Let_def

text \<open>Whatever the database answers, each call gives its connection back and every other part of the
  state but the table, the message and the log is untouched.\<close>

definition dao_frame :: "('db, 'rd, 'ob) world \<Rightarrow> ('db, 'rd, 'ob) world \<Rightarrow> bool" where
  "dao_frame w w' = (pg_pool w' = pool_rotated (pg_pool w) \<and> redis_srv w' = redis_srv w \<and>
     objects w' = objects w \<and> redis w' = redis w \<and> user_msg w' = user_msg w \<and> clock_ms w' = clock_ms w)"

lemma dao_create_frame:
  "pool_ready (pg_pool w) \<Longrightarrow> dao_frame w (snd (run_state (dao_create_resource E r) w))"
  by (simp add: dao_create_resource_def resource_dao_steps dao_frame_def split: option.splits if_splits)

lemma dao_get_resources_frame:
  "pool_ready (pg_pool w) \<Longrightarrow> dao_frame w (snd (run_state (dao_get_resources E u) w))"
  by (simp add: dao_get_resources_def resource_dao_steps dao_frame_def split: option.splits if_splits)

lemma dao_get_resource_frame:
  "pool_ready (pg_pool w) \<Longrightarrow> dao_frame w (snd (run_state (dao_get_resource E u i) w))"
  by (simp add: dao_get_resource_def resource_dao_steps dao_frame_def split: option.splits if_splits list.splits)

lemma dao_update_frame:
  "pool_ready (pg_pool w) \<Longrightarrow> dao_frame w (snd (run_state (dao_update_resource E r) w))"
  by (simp add: dao_update_resource_def resource_dao_steps dao_frame_def split: option.splits if_splits)

lemma dao_delete_frame:
  "pool_ready (pg_pool w) \<Longrightarrow> dao_frame w (snd (run_state (dao_delete_resource E u i) w))"
  by (simp add: dao_delete_resource_def resource_dao_steps dao_frame_def split: option.splits if_splits)

section \<open>What the statements do\<close>

text \<open>A text column holds the string, or NULL for the empty one; a boolean is printed as a letter.\<close>

definition row_of :: "Resource \<Rightarrow> string option list \<Rightarrow> bool" where
  "row_of r row = (\<exists>t c f. row = [Some (to_string (res_id r)), t, c, f] \<and>
     (t = Some (res_title r) \<or> t = None \<and> res_title r = '''') \<and>
     (c = Some (res_content r) \<or> c = None \<and> res_content r = '''') \<and>
     (f = Some (if res_is_file r then ''t'' else ''f'') \<or> f = None \<and> \<not> res_is_file r))"

text \<open>\<open>selected r P T\<close>: the result lists the rows of \<open>T\<close> that satisfy \<open>P\<close>, each once, in some order.\<close>

definition selected :: "PGresult option \<Rightarrow> (Resource \<Rightarrow> bool) \<Rightarrow> Resource set \<Rightarrow> bool" where
  "selected r P T = (\<exists>res rs. r = Some res \<and> pg_status res = PGRES_TUPLES_OK \<and>
     list_all2 row_of rs (pg_rows res) \<and> distinct rs \<and> set rs = {x \<in> T. P x})"

definition owned :: "int \<Rightarrow> int \<Rightarrow> Resource \<Rightarrow> bool" where
  "owned u i r = (res_user_id r = u \<and> res_id r = i)"

text \<open>
  What the code relies on from PostgreSQL for the \<^verbatim>\<open>resources\<close> table: \<open>table d\<close> is its contents and
  \<open>ok\<close> the databases the schema allows. The identity column is a 32-bit primary key. Each statement
  either does what its text says, or is reported as failed and changes nothing.
\<close>

locale pg_resources =
  fixes E :: "('db, 'rd, 'ob) externals" and tbl :: "'db \<Rightarrow> Resource set" and ok :: "'db \<Rightarrow> bool"
  assumes keys: "ok d \<Longrightarrow> inj_on res_id (tbl d) \<and> (\<forall>r \<in> tbl d. int32 (res_id r))"
    and exec_ok: "ok d \<Longrightarrow> ok (snd (pg_exec E c sql ps d))"
    and select_all: "ok d \<Longrightarrow> int32 u \<Longrightarrow> pg_exec E c sql_select_resources [to_string u] d = (r, d') \<Longrightarrow>
      tbl d' = tbl d \<and> (failed r \<or> selected r (\<lambda>x. res_user_id x = u) (tbl d))"
    and select_one: "ok d \<Longrightarrow> int32 u \<Longrightarrow> int32 i \<Longrightarrow>
      pg_exec E c sql_select_resource [to_string u, to_string i] d = (r, d') \<Longrightarrow>
      tbl d' = tbl d \<and> (failed r \<or> selected r (owned u i) (tbl d))"
    and insert_one: "ok d \<Longrightarrow> int32 u \<Longrightarrow> NUL \<notin> set t \<Longrightarrow> NUL \<notin> set x \<Longrightarrow>
      pg_exec E c sql_insert_resource [to_string u, t, x, if f then ''true'' else ''false''] d = (r, d') \<Longrightarrow>
      failed r \<and> tbl d' = tbl d \<or>
      commanded r 1 \<and> (\<exists>i. i \<notin> res_id ` tbl d \<and> tbl d' = insert
        \<lparr>res_id = i, res_user_id = u, res_title = t, res_content = x, res_is_file = f\<rparr> (tbl d))"
    and update_one: "ok d \<Longrightarrow> int32 u \<Longrightarrow> int32 i \<Longrightarrow> NUL \<notin> set t \<Longrightarrow> NUL \<notin> set x \<Longrightarrow>
      pg_exec E c sql_update_resource [t, x, to_string u, to_string i] d = (r, d') \<Longrightarrow>
      failed r \<and> tbl d' = tbl d \<or>
      commanded r (card {y \<in> tbl d. owned u i y}) \<and>
      tbl d' = (\<lambda>y. if owned u i y then y\<lparr>res_title := t, res_content := x\<rparr> else y) ` tbl d"
    and delete_one: "ok d \<Longrightarrow> int32 u \<Longrightarrow> int32 i \<Longrightarrow>
      pg_exec E c sql_delete_resource [to_string i, to_string u] d = (r, d') \<Longrightarrow>
      failed r \<and> tbl d' = tbl d \<or>
      commanded r (card {y \<in> tbl d. owned u i y}) \<and> tbl d' = {y \<in> tbl d. \<not> owned u i y}"
begin

lemma owned_unique: "ok d \<Longrightarrow> y \<in> tbl d \<Longrightarrow> owned u i y \<Longrightarrow> {x \<in> tbl d. owned u i x} = {y}"
  using keys [of d] by (auto simp: owned_def inj_on_def)

end

lemma row_to_resource_of: "row_of y row \<Longrightarrow> int32 (res_id y) \<Longrightarrow> row_to_resource row = y\<lparr>res_user_id := 0\<rparr>"
  by (cases y) (auto simp: row_of_def row_to_resource_def PQgetvalue_def nullable_value_def pg_bool_value_def split: if_splits)

lemma rows_to_resources:
  "list_all2 row_of ys rows \<Longrightarrow> \<forall>y \<in> set ys. int32 (res_id y) \<Longrightarrow>
   map row_to_resource rows = map (\<lambda>y. y\<lparr>res_user_id := 0\<rparr>) ys"
  by (induction ys rows rule: list_all2_induct) (auto simp: row_to_resource_of)

context pg_resources
begin

lemma dao_get_resource_contract:
  assumes "pool_ready (pg_pool w)" "ok (db w)" "int32 u" "int32 i"
    "run_state (dao_get_resource E u i) w = (x, w')"
  shows "tbl (db w') = tbl (db w) \<and> ok (db w') \<and>
    (case x of Some r \<Rightarrow> (\<exists>y \<in> tbl (db w). owned u i y \<and> r = y\<lparr>res_user_id := 0\<rparr>)
     | None \<Rightarrow> resource_msg w' \<noteq> '''' \<and>
         (resource_msg w' = ''Resource not found.'' \<longrightarrow> (\<forall>y \<in> tbl (db w). \<not> owned u i y)))"
proof -
  have xw: "x = fst (run_state (dao_get_resource E u i) w)" "w' = snd (run_state (dao_get_resource E u i) w)"
    using assms(5) by auto
  let ?c = "hd (conn_list (pg_pool w))"
  obtain r d where e: "pg_exec E ?c sql_select_resource [to_string u, to_string i] (db w) = (r, d)"
    by (cases "pg_exec E ?c sql_select_resource [to_string u, to_string i] (db w)")
  have d: "tbl d = tbl (db w)" "failed r \<or> selected r (owned u i) (tbl (db w))" "ok d"
    using select_one [OF assms(2-4) e] exec_ok [OF assms(2), of ?c sql_select_resource "[to_string u, to_string i]"] e
    by auto
  from d(2) show ?thesis
  proof
    assume "failed r"
    then have "\<not> tuples_ok r" by (rule failed_simps)
    with assms(1) e d show ?thesis
      unfolding xw by (simp add: dao_get_resource_def resource_dao_steps)
  next
    assume "selected r (owned u i) (tbl (db w))"
    then obtain res ys where s: "r = Some res" "pg_status res = PGRES_TUPLES_OK"
        "list_all2 row_of ys (pg_rows res)" "set ys = {y \<in> tbl (db w). owned u i y}"
      by (auto simp: selected_def)
    show ?thesis
    proof (cases ys)
      case Nil
      with s assms(1) e d show ?thesis
        unfolding xw by (simp add: dao_get_resource_def resource_dao_steps tuples_ok_def)
    next
      case (Cons y ys')
      then obtain row rows where rr: "pg_rows res = row # rows" "row_of y row"
        using s(3) by (auto simp: list_all2_Cons1)
      have y: "y \<in> tbl (db w)" "owned u i y" using s(4) Cons by auto
      then have "row_to_resource row = y\<lparr>res_user_id := 0\<rparr>"
        using row_to_resource_of [OF rr(2)] keys [OF assms(2)] by blast
      with y rr s assms(1) e d show ?thesis
        unfolding xw by (simp add: dao_get_resource_def resource_dao_steps tuples_ok_def) blast
    qed
  qed
qed

lemma dao_get_resources_contract:
  assumes "pool_ready (pg_pool w)" "ok (db w)" "int32 u" "run_state (dao_get_resources E u) w = (x, w')"
  shows "tbl (db w') = tbl (db w) \<and> ok (db w') \<and>
    (resource_msg w' = '''' \<longrightarrow> (\<exists>ys. distinct ys \<and> set ys = {y \<in> tbl (db w). res_user_id y = u} \<and>
       x = map (\<lambda>y. y\<lparr>res_user_id := 0\<rparr>) ys))"
proof -
  have xw: "x = fst (run_state (dao_get_resources E u) w)" "w' = snd (run_state (dao_get_resources E u) w)"
    using assms(4) by auto
  let ?c = "hd (conn_list (pg_pool w))"
  obtain r d where e: "pg_exec E ?c sql_select_resources [to_string u] (db w) = (r, d)"
    by (cases "pg_exec E ?c sql_select_resources [to_string u] (db w)")
  have d: "tbl d = tbl (db w)" "failed r \<or> selected r (\<lambda>y. res_user_id y = u) (tbl (db w))" "ok d"
    using select_all [OF assms(2,3) e] exec_ok [OF assms(2), of ?c sql_select_resources "[to_string u]"] e
    by auto
  from d(2) show ?thesis
  proof
    assume "failed r"
    then have "\<not> tuples_ok r" by (rule failed_simps)
    with assms(1) e d show ?thesis
      unfolding xw by (simp add: dao_get_resources_def resource_dao_steps)
  next
    assume "selected r (\<lambda>y. res_user_id y = u) (tbl (db w))"
    then obtain res ys where s: "r = Some res" "pg_status res = PGRES_TUPLES_OK"
        "list_all2 row_of ys (pg_rows res)" "distinct ys" "set ys = {y \<in> tbl (db w). res_user_id y = u}"
      by (auto simp: selected_def)
    have "map row_to_resource (pg_rows res) = map (\<lambda>y. y\<lparr>res_user_id := 0\<rparr>) ys"
      using rows_to_resources [OF s(3)] s(5) keys [OF assms(2)] by auto
    with s assms(1) e d show ?thesis
      unfolding xw by (simp add: dao_get_resources_def resource_dao_steps tuples_ok_def) blast
  qed
qed

end

lemma command_failed:
  assumes "failed r"
  shows "run_state (command_ok E c r sql set_resource_msg) w =
     (False, w\<lparr>resource_msg := ''Query failed: '' @ pg_errmsg E c (db w),
        log_calls := log_calls w @ [(ERROR, ''Query failed: '' @ pg_errmsg E c (db w) @ '' SQL: '' @ sql)]\<rparr>)"
  using assms by (cases r) (simp_all add: failed_def command_ok_def)

lemmas command_steps = run_pg_lease require_affected_def set_resource_dao_error_def lease_release split_def Let_def

context pg_resources
begin

lemma owned_card: "ok d \<Longrightarrow> card {y \<in> tbl d. owned u i y} \<le> 1"
proof (cases "{y \<in> tbl d. owned u i y} = {}")
  case False
  assume "ok d"
  moreover from False obtain y where "y \<in> tbl d" "owned u i y" by blast
  ultimately show ?thesis using owned_unique [of d y u i] by simp
qed (simp only: card.empty)

lemma dao_create_contract:
  assumes "pool_ready (pg_pool w)" "ok (db w)" "int32 (res_user_id q)"
    "run_state (dao_create_resource E q) w = (done, w')"
  shows "ok (db w') \<and> (if done then \<exists>i. i \<notin> res_id ` tbl (db w) \<and> tbl (db w') = insert
      (q\<lparr>res_id := i, res_title := c_str (res_title q), res_content := c_str (res_content q)\<rparr>) (tbl (db w))
    else tbl (db w') = tbl (db w) \<and> resource_msg w' \<noteq> '''')"
proof -
  have xw: "done = fst (run_state (dao_create_resource E q) w)" "w' = snd (run_state (dao_create_resource E q) w)"
    using assms(4) by auto
  let ?c = "hd (conn_list (pg_pool w))"
  let ?ps = "[to_string (res_user_id q), c_str (res_title q), c_str (res_content q), if res_is_file q then ''true'' else ''false'']"
  obtain r d where e: "pg_exec E ?c sql_insert_resource ?ps (db w) = (r, d)"
    by (cases "pg_exec E ?c sql_insert_resource ?ps (db w)")
  have cs: "c_str (c_str s) = c_str s" for s by simp
  have d: "ok d" using exec_ok [OF assms(2), of ?c sql_insert_resource ?ps] e by simp
  from insert_one [OF assms(2,3) NUL_notin_c_str NUL_notin_c_str e] show ?thesis
  proof (elim disjE conjE exE)
    assume f: "failed r" "tbl d = tbl (db w)"
    with assms(1) e cs d show ?thesis
      unfolding xw by (simp add: dao_create_resource_def command_steps command_failed [OF f(1)])
  next
    fix i
    assume s: "commanded r 1" "i \<notin> res_id ` tbl (db w)" "tbl d = insert \<lparr>res_id = i, res_user_id = res_user_id q,
      res_title = c_str (res_title q), res_content = c_str (res_content q), res_is_file = res_is_file q\<rparr> (tbl (db w))"
    have "tbl d = insert
      (q\<lparr>res_id := i, res_title := c_str (res_title q), res_content := c_str (res_content q)\<rparr>) (tbl (db w))" using s(3) by (cases q) simp
    with assms(1) e cs d s(2) show ?thesis
      unfolding xw by (simp add: dao_create_resource_def command_steps command_done [OF s(1)]) blast
  qed
qed

lemma dao_update_contract:
  assumes "pool_ready (pg_pool w)" "ok (db w)" "int32 (res_user_id q)" "int32 (res_id q)"
    "run_state (dao_update_resource E q) w = (done, w')"
  shows "ok (db w') \<and> (if done then (\<exists>y \<in> tbl (db w). owned (res_user_id q) (res_id q) y) \<and>
      tbl (db w') = (\<lambda>y. if owned (res_user_id q) (res_id q) y
        then y\<lparr>res_title := c_str (res_title q), res_content := c_str (res_content q)\<rparr> else y) ` tbl (db w)
    else tbl (db w') = tbl (db w) \<and> resource_msg w' \<noteq> '''')"
proof -
  have xw: "done = fst (run_state (dao_update_resource E q) w)" "w' = snd (run_state (dao_update_resource E q) w)"
    using assms(5) by auto
  let ?c = "hd (conn_list (pg_pool w))" and ?o = "owned (res_user_id q) (res_id q)"
  let ?ps = "[c_str (res_title q), c_str (res_content q), to_string (res_user_id q), to_string (res_id q)]"
  let ?n = "card {y \<in> tbl (db w). ?o y}"
  obtain r d where e: "pg_exec E ?c sql_update_resource ?ps (db w) = (r, d)"
    by (cases "pg_exec E ?c sql_update_resource ?ps (db w)")
  have cs: "c_str (c_str s) = c_str s" for s by simp
  have d: "ok d" using exec_ok [OF assms(2), of ?c sql_update_resource ?ps] e by simp
  from update_one [OF assms(2-4) NUL_notin_c_str NUL_notin_c_str e] show ?thesis
  proof (elim disjE conjE)
    assume f: "failed r" "tbl d = tbl (db w)"
    with assms(1) e cs d show ?thesis
      unfolding xw by (simp add: dao_update_resource_def command_steps command_failed [OF f(1)])
  next
    assume s: "commanded r ?n"
      "tbl d = (\<lambda>y. if ?o y then y\<lparr>res_title := c_str (res_title q), res_content := c_str (res_content q)\<rparr> else y) ` tbl (db w)"
    have a: "affected_rows r = (?n = 1)" by (rule commanded_affected [OF s(1) owned_card [OF assms(2)]])
    show ?thesis
    proof (cases "\<exists>y \<in> tbl (db w). ?o y")
      case True
      then have "?n = 1" using owned_unique [OF assms(2)] by force
      with True a assms(1) e cs d s(2) show ?thesis
        unfolding xw by (simp add: dao_update_resource_def command_steps command_done [OF s(1)])
    next
      case False
      then have none: "{y \<in> tbl (db w). ?o y} = {}" and same: "tbl d = tbl (db w)" using s(2) by (auto simp: image_iff)
      then have n: "?n = 0" by (simp only: card.empty)
      with n same a assms(1) e cs d show ?thesis
        unfolding xw by (simp add: dao_update_resource_def command_steps command_done [OF s(1)])
    qed
  qed
qed

lemma dao_delete_contract:
  assumes "pool_ready (pg_pool w)" "ok (db w)" "int32 u" "int32 i" "run_state (dao_delete_resource E u i) w = (done, w')"
  shows "ok (db w') \<and> (if done then (\<exists>y \<in> tbl (db w). owned u i y) \<and> tbl (db w') = {y \<in> tbl (db w). \<not> owned u i y}
    else tbl (db w') = tbl (db w) \<and> resource_msg w' \<noteq> '''')"
proof -
  have xw: "done = fst (run_state (dao_delete_resource E u i) w)" "w' = snd (run_state (dao_delete_resource E u i) w)"
    using assms(5) by auto
  let ?c = "hd (conn_list (pg_pool w))" and ?n = "card {y \<in> tbl (db w). owned u i y}"
  let ?ps = "[to_string i, to_string u]"
  obtain r d where e: "pg_exec E ?c sql_delete_resource ?ps (db w) = (r, d)"
    by (cases "pg_exec E ?c sql_delete_resource ?ps (db w)")
  have d: "ok d" using exec_ok [OF assms(2), of ?c sql_delete_resource ?ps] e by simp
  from delete_one [OF assms(2-4) e] show ?thesis
  proof (elim disjE conjE)
    assume f: "failed r" "tbl d = tbl (db w)"
    with assms(1) e d show ?thesis
      unfolding xw by (simp add: dao_delete_resource_def command_steps command_failed [OF f(1)])
  next
    assume s: "commanded r ?n" "tbl d = {y \<in> tbl (db w). \<not> owned u i y}"
    have a: "affected_rows r = (?n = 1)" by (rule commanded_affected [OF s(1) owned_card [OF assms(2)]])
    show ?thesis
    proof (cases "\<exists>y \<in> tbl (db w). owned u i y")
      case True
      then have "?n = 1" using owned_unique [OF assms(2)] by force
      with True a assms(1) e d s(2) show ?thesis
        unfolding xw by (simp add: dao_delete_resource_def command_steps command_done [OF s(1)])
    next
      case False
      then have none: "{y \<in> tbl (db w). owned u i y} = {}" and same: "tbl d = tbl (db w)" using s(2) by auto
      then have n: "?n = 0" by (simp only: card.empty)
      with n same a assms(1) e d show ?thesis
        unfolding xw by (simp add: dao_delete_resource_def command_steps command_done [OF s(1)])
    qed
  qed
qed

end

end
