(* ===== verification/Redis_Client.thy ===== *)
theory Redis_Client
  imports World
begin

text \<open>
  \<^verbatim>\<open>src/src/cache/redis_client.h\<close> and \<^verbatim>\<open>redis_client.cpp\<close>: the pool of hiredis contexts and the
  three commands of the cache. A call of \<open>get_connection\<close> is one that has returned from
  \<^verbatim>\<open>cv_.wait\<close>, so with the client available the pool was not empty.
\<close>

section \<open>Definitions\<close>

definition DEFAULT_REDIS_POOL_SIZE :: int where "DEFAULT_REDIS_POOL_SIZE = 10"

definition set_client :: "(redis_client \<Rightarrow> redis_client) \<Rightarrow> ('db, 'rd, 'ob, unit) action" where
  "set_client f = State_Monad.update (\<lambda>w. w\<lparr>redis := f (redis w)\<rparr>)"

definition redisFree :: "redis_context \<Rightarrow> ('db, 'rd, 'ob, unit) action" where
  "redisFree ctx = set_client (\<lambda>r. r\<lparr>rc_freed := rc_freed r @ [ctx]\<rparr>)"

definition clear_pool :: "redis_client \<Rightarrow> redis_client" where
  "clear_pool r = r\<lparr>rc_freed := rc_freed r @ rc_conn_pool r, rc_conn_pool := [], rc_max_conn := 0\<rparr>"

text \<open>A command on a context, and the error text of the context afterwards.\<close>

definition redisCommand :: "('db, 'rd, 'ob) externals \<Rightarrow> redis_context \<Rightarrow> redis_cmd \<Rightarrow>
    ('db, 'rd, 'ob, redis_reply option) action" where
  "redisCommand E ctx cmd = State (\<lambda>w.
     let (reply, srv) = redis_exec E ctx cmd (redis_srv w) in (reply, w\<lparr>redis_srv := srv\<rparr>))"

definition errstr :: "('db, 'rd, 'ob) externals \<Rightarrow> redis_context \<Rightarrow> ('db, 'rd, 'ob, string) action" where
  "errstr E ctx = State (\<lambda>w. (redis_errstr E ctx (redis_srv w), w))"

definition tls_setup :: "('db, 'rd, 'ob) externals \<Rightarrow> redis_context \<Rightarrow> ('db, 'rd, 'ob, bool) action" where
  "tls_setup E ctx = do {
     w \<leftarrow> State_Monad.get;
     if \<not> rc_use_tls (redis w) then State_Monad.return True
     else do {
       let (res, srv) = redis_tls E ctx (rc_host (redis w)) (redis_srv w);
       State_Monad.update (\<lambda>w. w\<lparr>redis_srv := srv\<rparr>);
       (case res of
          Tls_no_context \<Rightarrow> do {
            log ERROR ''Redis TLS context creation failed'';
            redisFree ctx;
            State_Monad.return False }
        | Tls_handshake_failed e \<Rightarrow> do {
            log ERROR (''Redis TLS handshake failed: '' @ e);
            redisFree ctx;
            State_Monad.return False }
        | Tls_ok \<Rightarrow> State_Monad.return True)
     }
   }"

text \<open>The shared shape of the AUTH and the PING exchange: a null or error reply frees the context.\<close>

definition handshake :: "('db, 'rd, 'ob) externals \<Rightarrow> redis_context \<Rightarrow> redis_cmd \<Rightarrow> string \<Rightarrow>
    ('db, 'rd, 'ob, bool) action" where
  "handshake E ctx cmd label = do {
     reply \<leftarrow> redisCommand E ctx cmd;
     (case reply of
        None \<Rightarrow> do {
          e \<leftarrow> errstr E ctx;
          log ERROR (label @ e);
          redisFree ctx;
          State_Monad.return False }
      | Some (REPLY_ERROR e) \<Rightarrow> do {
          log ERROR (label @ e);
          redisFree ctx;
          State_Monad.return False }
      | Some _ \<Rightarrow> State_Monad.return True)
   }"

definition auth_setup :: "('db, 'rd, 'ob) externals \<Rightarrow> redis_context \<Rightarrow> ('db, 'rd, 'ob, bool) action" where
  "auth_setup E ctx = do {
     w \<leftarrow> State_Monad.get;
     if rc_password (redis w) = '''' then State_Monad.return True
     else handshake E ctx (Redis_AUTH (rc_password (redis w))) ''Redis auth failed: ''
   }"

definition create_connection :: "('db, 'rd, 'ob) externals \<Rightarrow> ('db, 'rd, 'ob, redis_context option) action" where
  "create_connection E = do {
     w \<leftarrow> State_Monad.get;
     let (res, srv) = redis_connect E (rc_host (redis w)) (rc_port (redis w)) (redis_srv w);
     State_Monad.update (\<lambda>w. w\<lparr>redis_srv := srv\<rparr>);
     (case res of
        Connect_null \<Rightarrow> do {
          log ERROR (''Redis connection failed: cannot allocate Redis context'');
          State_Monad.return None }
      | Connect_err ctx e \<Rightarrow> do {
          log ERROR (''Redis connection failed: '' @ e);
          redisFree ctx;
          State_Monad.return None }
      | Connect_ok ctx \<Rightarrow> do {
          tls \<leftarrow> tls_setup E ctx;
          if \<not> tls then State_Monad.return None
          else do {
            auth \<leftarrow> auth_setup E ctx;
            if \<not> auth then State_Monad.return None
            else do {
              ping \<leftarrow> handshake E ctx Redis_PING ''Redis ping failed: '';
              State_Monad.return (if ping then Some ctx else None)
            }
          }
        })
   }"

text \<open>The loop of \<^verbatim>\<open>init\<close>: connect \<open>n\<close> times, clearing the pool on the first failure.\<close>

fun fill_pool :: "('db, 'rd, 'ob) externals \<Rightarrow> nat \<Rightarrow> ('db, 'rd, 'ob, bool) action" where
  "fill_pool E 0 = State_Monad.return True"
| "fill_pool E (Suc n) = do {
     ctx \<leftarrow> create_connection E;
     (case ctx of
        None \<Rightarrow> do { set_client clear_pool; State_Monad.return False }
      | Some c \<Rightarrow> do {
          set_client (\<lambda>r. r\<lparr>rc_conn_pool := rc_conn_pool r @ [c]\<rparr>);
          fill_pool E n })
   }"

definition redis_init :: "('db, 'rd, 'ob) externals \<Rightarrow> string \<Rightarrow> int \<Rightarrow> string \<Rightarrow> bool \<Rightarrow>
    ('db, 'rd, 'ob, bool) action" where
  "redis_init E host port password use_tls = do {
     set_client (\<lambda>r. (clear_pool r)\<lparr>rc_host := host, rc_port := port, rc_password := password,
       rc_use_tls := use_tls, rc_max_conn := DEFAULT_REDIS_POOL_SIZE, rc_available := False\<rparr>);
     ok \<leftarrow> fill_pool E (nat DEFAULT_REDIS_POOL_SIZE);
     if ok then do {
       set_client (\<lambda>r. r\<lparr>rc_available := True\<rparr>);
       log INFO (''Redis cache connected with pool_size='' @ to_string DEFAULT_REDIS_POOL_SIZE);
       State_Monad.return True }
     else State_Monad.return False
   }"

definition redis_shutdown :: "('db, 'rd, 'ob, unit) action" where
  "redis_shutdown = set_client (\<lambda>r. (clear_pool r)\<lparr>rc_available := False\<rparr>)"

definition is_available :: "('db, 'rd, 'ob, bool) action" where
  "is_available = State (\<lambda>w. (rc_available (redis w), w))"

text \<open>
  The wait of \<^verbatim>\<open>get_connection\<close> ends when a context is free or the client is switched off. A call on an
  available client with an empty pool would wait for another thread; the null pointer stands for it
  here, and \<open>redis_ready\<close> below excludes the case for a thread that holds no context itself.
\<close>

definition redis_get_connection :: "('db, 'rd, 'ob, redis_context option) action" where
  "redis_get_connection = State (\<lambda>w.
     if \<not> rc_available (redis w) then (None, w)
     else case rc_conn_pool (redis w) of
            [] \<Rightarrow> (None, w)
          | ctx # rest \<Rightarrow> (Some ctx, w\<lparr>redis := (redis w)\<lparr>rc_conn_pool := rest\<rparr>\<rparr>))"

definition redis_release_connection :: "redis_context \<Rightarrow> ('db, 'rd, 'ob, unit) action" where
  "redis_release_connection ctx = do {
     w \<leftarrow> State_Monad.get;
     if \<not> rc_available (redis w) then redisFree ctx
     else set_client (\<lambda>r. r\<lparr>rc_conn_pool := rc_conn_pool r @ [ctx]\<rparr>)
   }"

definition discard_connection :: "('db, 'rd, 'ob) externals \<Rightarrow> redis_context \<Rightarrow> ('db, 'rd, 'ob, unit) action" where
  "discard_connection E ctx = do {
     redisFree ctx;
     replacement \<leftarrow> create_connection E;
     (case replacement of
        Some c \<Rightarrow> redis_release_connection c
      | None \<Rightarrow> set_client (\<lambda>r. clear_pool (r\<lparr>rc_available := False\<rparr>)))
   }"

definition redis_get :: "('db, 'rd, 'ob) externals \<Rightarrow> string \<Rightarrow> ('db, 'rd, 'ob, string option) action" where
  "redis_get E key = do {
     context \<leftarrow> redis_get_connection;
     (case context of
        None \<Rightarrow> State_Monad.return None
      | Some ctx \<Rightarrow> do {
          reply \<leftarrow> redisCommand E ctx (Redis_GET (c_str key));
          (case reply of
             None \<Rightarrow> do {
               e \<leftarrow> errstr E ctx;
               log ERROR (''Redis GET failed: '' @ e);
               discard_connection E ctx;
               State_Monad.return None }
           | Some r \<Rightarrow> do {
               redis_release_connection ctx;
               State_Monad.return (case r of REPLY_STRING s \<Rightarrow> Some s | _ \<Rightarrow> None) })
        })
   }"

definition redis_set :: "('db, 'rd, 'ob) externals \<Rightarrow> string \<Rightarrow> string \<Rightarrow> int \<Rightarrow> ('db, 'rd, 'ob, bool) action" where
  "redis_set E key value ttl_seconds =
     (if ttl_seconds \<le> 0 then State_Monad.return False
      else do {
        context \<leftarrow> redis_get_connection;
        (case context of
           None \<Rightarrow> State_Monad.return False
         | Some ctx \<Rightarrow> do {
             reply \<leftarrow> redisCommand E ctx (Redis_SETEX (c_str key) ttl_seconds value);
             (case reply of
                None \<Rightarrow> do {
                  e \<leftarrow> errstr E ctx;
                  log ERROR (''Redis SETEX failed: '' @ e);
                  discard_connection E ctx;
                  State_Monad.return False }
              | Some r \<Rightarrow> do {
                  redis_release_connection ctx;
                  State_Monad.return (r = REPLY_STATUS ''OK'') })
           })
      })"

definition redis_del :: "('db, 'rd, 'ob) externals \<Rightarrow> string \<Rightarrow> ('db, 'rd, 'ob, bool) action" where
  "redis_del E key = do {
     context \<leftarrow> redis_get_connection;
     (case context of
        None \<Rightarrow> State_Monad.return False
      | Some ctx \<Rightarrow> do {
          reply \<leftarrow> redisCommand E ctx (Redis_DEL (c_str key));
          (case reply of
             None \<Rightarrow> do {
               e \<leftarrow> errstr E ctx;
               log ERROR (''Redis DEL failed: '' @ e);
               discard_connection E ctx;
               State_Monad.return False }
           | Some r \<Rightarrow> do {
               redis_release_connection ctx;
               State_Monad.return (case r of REPLY_INTEGER n \<Rightarrow> True | _ \<Rightarrow> False) })
        })
   }"

section \<open>What a cache operation may change\<close>

text \<open>Only the cache server, the client object and the log.\<close>

definition redis_frame :: "('db, 'rd, 'ob) world \<Rightarrow> ('db, 'rd, 'ob) world \<Rightarrow> bool" where
  "redis_frame w w' = (db w' = db w \<and> objects w' = objects w \<and> pg_pool w' = pg_pool w \<and>
     resource_msg w' = resource_msg w \<and> user_msg w' = user_msg w \<and> clock_ms w' = clock_ms w \<and>
     console w' = console w)"

lemma run_set_client [simp]: "run_state (set_client f) w = ((), w\<lparr>redis := f (redis w)\<rparr>)"
  by (simp add: set_client_def)

lemma run_redisFree [simp]:
  "run_state (redisFree ctx) w = ((), w\<lparr>redis := (redis w)\<lparr>rc_freed := rc_freed (redis w) @ [ctx]\<rparr>\<rparr>)"
  by (simp add: redisFree_def)

lemma run_redisCommand [simp]:
  "run_state (redisCommand E ctx cmd) w =
     (fst (redis_exec E ctx cmd (redis_srv w)), w\<lparr>redis_srv := snd (redis_exec E ctx cmd (redis_srv w))\<rparr>)"
  by (simp add: redisCommand_def Let_def split_def)

lemma run_errstr [simp]: "run_state (errstr E ctx) w = (redis_errstr E ctx (redis_srv w), w)"
  by (simp add: errstr_def)

text \<open>A client that is available has a context to hand out.\<close>

definition redis_ready :: "redis_client \<Rightarrow> bool" where
  "redis_ready r = (rc_available r \<longrightarrow> rc_conn_pool r \<noteq> [])"

text \<open>A step that keeps everything but the cache, loses entries at most and never revives the client.\<close>

definition shrinks :: "('rd \<Rightarrow> string \<rightharpoonup> string) \<Rightarrow> ('db, 'rd, 'ob) world \<Rightarrow> ('db, 'rd, 'ob) world \<Rightarrow> bool" where
  "shrinks entries w w' = (redis_frame w w' \<and> entries (redis_srv w') \<subseteq>\<^sub>m entries (redis_srv w) \<and>
     (rc_available (redis w') \<longrightarrow> rc_available (redis w)))"

lemma shrinks_refl [simp, intro]: "shrinks entries w w"
  by (simp add: shrinks_def redis_frame_def)

lemma shrinks_trans: "shrinks entries u v \<Longrightarrow> shrinks entries v w \<Longrightarrow> shrinks entries u w"
  unfolding shrinks_def redis_frame_def by (auto intro: map_le_trans)

lemma shrinks_bind:
  "shrinks entries w (snd (run_state m w)) \<Longrightarrow>
   (\<And>x w1. run_state m w = (x, w1) \<Longrightarrow> shrinks entries w1 (snd (run_state (k x) w1))) \<Longrightarrow>
   shrinks entries w (snd (run_state (State_Monad.bind m k) w))"
  by (auto simp: split_def intro: shrinks_trans)

lemmas shrink_defs = shrinks_def redis_frame_def

text \<open>As before, but one entry may have been stored.\<close>

definition stores :: "('rd \<Rightarrow> string \<rightharpoonup> string) \<Rightarrow> string \<Rightarrow> string \<Rightarrow>
    ('db, 'rd, 'ob) world \<Rightarrow> ('db, 'rd, 'ob) world \<Rightarrow> bool" where
  "stores entries k v w w' = (redis_frame w w' \<and>
     (entries (redis_srv w') \<subseteq>\<^sub>m (entries (redis_srv w))(k \<mapsto> v) \<or> entries (redis_srv w') \<subseteq>\<^sub>m entries (redis_srv w)) \<and>
     (rc_available (redis w') \<longrightarrow> rc_available (redis w)))"

lemma shrinks_stores: "shrinks entries w w' \<Longrightarrow> stores entries k v w w'"
  by (simp add: stores_def shrinks_def)

lemma stores_shrinks: "stores entries k v w w1 \<Longrightarrow> shrinks entries w1 w2 \<Longrightarrow> stores entries k v w w2"
  unfolding stores_def shrinks_def redis_frame_def by (auto intro: map_le_trans)

text \<open>Opening a connection leaves the pool and its flag alone.\<close>

definition same_client :: "redis_client \<Rightarrow> redis_client \<Rightarrow> bool" where
  "same_client r r' = (rc_available r' = rc_available r \<and> rc_conn_pool r' = rc_conn_pool r)"

lemma same_client_refl [simp]: "same_client r r"
  by (simp add: same_client_def)

lemma handshake_client: "same_client (redis w) (redis (snd (run_state (handshake E ctx cmd label) w)))"
  by (auto simp: handshake_def same_client_def split: option.splits redis_reply.splits)

lemma tls_client: "same_client (redis w) (redis (snd (run_state (tls_setup E ctx) w)))"
  by (auto simp: tls_setup_def same_client_def Let_def split_def split: redis_tls_result.splits)

lemma auth_client: "same_client (redis w) (redis (snd (run_state (auth_setup E ctx) w)))"
  by (simp add: auth_setup_def handshake_client)

lemma same_client_bind:
  "same_client r (redis (snd (run_state m w))) \<Longrightarrow>
   (\<And>x w1. run_state m w = (x, w1) \<Longrightarrow> same_client (redis w1) (redis (snd (run_state (k x) w1)))) \<Longrightarrow>
   same_client r (redis (snd (run_state (State_Monad.bind m k) w)))"
  by (auto simp: split_def same_client_def)

lemma create_connection_client: "same_client (redis w) (redis (snd (run_state (create_connection E) w)))"
proof -
  have tail: "same_client (redis w) (redis (snd (run_state (do {
      tls \<leftarrow> tls_setup E ctx;
      if \<not> tls then State_Monad.return None
      else do {
        auth \<leftarrow> auth_setup E ctx;
        if \<not> auth then State_Monad.return None
        else do {
          ping \<leftarrow> handshake E ctx Redis_PING ''Redis ping failed: '';
          State_Monad.return (if ping then Some ctx else None) } } }) w)))" for ctx and w :: "('a, 'b, 'c) world"
    by (intro same_client_bind tls_client)
       (auto intro!: same_client_bind auth_client handshake_client simp del: run_state_bind)
  obtain res srv where r: "redis_connect E (rc_host (redis w)) (rc_port (redis w)) (redis_srv w) = (res, srv)"
    by (cases "redis_connect E (rc_host (redis w)) (rc_port (redis w)) (redis_srv w)")
  show ?thesis
  proof (cases res)
    case (Connect_ok ctx)
    then show ?thesis
      using r tail [of "w\<lparr>redis_srv := srv\<rparr>" ctx] by (simp add: create_connection_def Let_def)
  qed (use r in \<open>auto simp: create_connection_def Let_def same_client_def\<close>)
qed

text \<open>
  What the code relies on from the Redis server, with \<open>entries s\<close> the keys that have not expired and
  their values: entries may vanish at any time, a value is stored only by SETEX, GET answers with the
  stored value, and a DEL that is answered with a count has removed the key.
\<close>

locale redis_store =
  fixes E :: "('db, 'rd, 'ob) externals" and entries :: "'rd \<Rightarrow> string \<rightharpoonup> string"
  assumes connect_law: "entries (snd (redis_connect E host port s)) \<subseteq>\<^sub>m entries s"
    and tls_law: "entries (snd (redis_tls E ctx host s)) \<subseteq>\<^sub>m entries s"
    and auth_law: "entries (snd (redis_exec E ctx (Redis_AUTH p) s)) \<subseteq>\<^sub>m entries s"
    and ping_law: "entries (snd (redis_exec E ctx Redis_PING s)) \<subseteq>\<^sub>m entries s"
    and get_law: "entries (snd (redis_exec E ctx (Redis_GET k) s)) \<subseteq>\<^sub>m entries s"
    and get_value: "fst (redis_exec E ctx (Redis_GET k) s) = Some (REPLY_STRING v) \<Longrightarrow> entries s k = Some v"
    and setex_law: "entries (snd (redis_exec E ctx (Redis_SETEX k ttl v) s)) \<subseteq>\<^sub>m (entries s)(k \<mapsto> v) \<or>
      entries (snd (redis_exec E ctx (Redis_SETEX k ttl v) s)) \<subseteq>\<^sub>m entries s"
    and del_law: "entries (snd (redis_exec E ctx (Redis_DEL k) s)) \<subseteq>\<^sub>m entries s"
    and del_removes: "fst (redis_exec E ctx (Redis_DEL k) s) = Some (REPLY_INTEGER n) \<Longrightarrow>
      entries (snd (redis_exec E ctx (Redis_DEL k) s)) k = None"
begin

lemma shrinks_handshake:
  "(\<And>s. entries (snd (redis_exec E ctx cmd s)) \<subseteq>\<^sub>m entries s) \<Longrightarrow>
   shrinks entries w (snd (run_state (handshake E ctx cmd label) w))"
  by (auto simp: handshake_def shrink_defs split: option.splits redis_reply.splits)

lemma shrinks_tls: "shrinks entries w (snd (run_state (tls_setup E ctx) w))"
  using tls_law by (auto simp: tls_setup_def shrink_defs Let_def split_def split: redis_tls_result.splits)

lemma shrinks_auth: "shrinks entries w (snd (run_state (auth_setup E ctx) w))"
  using shrinks_handshake [OF auth_law] by (simp add: auth_setup_def)

lemma shrinks_create: "shrinks entries w (snd (run_state (create_connection E) w))"
proof -
  have c: "shrinks entries w (w\<lparr>redis_srv := snd (redis_connect E h p (redis_srv w))\<rparr>)" for h p
    using connect_law by (simp add: shrink_defs)
  have tail: "shrinks entries w (snd (run_state (do {
      tls \<leftarrow> tls_setup E ctx;
      if \<not> tls then State_Monad.return None
      else do {
        auth \<leftarrow> auth_setup E ctx;
        if \<not> auth then State_Monad.return None
        else do {
          ping \<leftarrow> handshake E ctx Redis_PING ''Redis ping failed: '';
          State_Monad.return (if ping then Some ctx else None) } } }) w))" for ctx and w :: "('db, 'rd, 'ob) world"
    by (intro shrinks_bind shrinks_tls)
       (auto intro!: shrinks_bind shrinks_auth shrinks_handshake ping_law simp del: run_state_bind)
  obtain res srv where r: "redis_connect E (rc_host (redis w)) (rc_port (redis w)) (redis_srv w) = (res, srv)"
    by (cases "redis_connect E (rc_host (redis w)) (rc_port (redis w)) (redis_srv w)")
  show ?thesis
  proof (cases res)
    case (Connect_ok ctx)
    then show ?thesis
      using r c [of "rc_host (redis w)" "rc_port (redis w)"] tail [of "w\<lparr>redis_srv := srv\<rparr>" ctx]
      by (auto simp: create_connection_def Let_def intro: shrinks_trans)
  qed (use r c [of "rc_host (redis w)" "rc_port (redis w)"] in \<open>auto simp: create_connection_def Let_def shrink_defs\<close>)
qed

text \<open>Giving a context up: replaced in the pool, or the cache is switched off.\<close>

lemma discard_contract:
  "shrinks entries w (snd (run_state (discard_connection E ctx) w)) \<and>
   redis_ready (redis (snd (run_state (discard_connection E ctx) w)))"
proof -
  let ?w0 = "w\<lparr>redis := (redis w)\<lparr>rc_freed := rc_freed (redis w) @ [ctx]\<rparr>\<rparr>"
  obtain x w1 where c: "run_state (create_connection E) ?w0 = (x, w1)"
    by (cases "run_state (create_connection E) ?w0")
  have "shrinks entries w ?w0" by (simp add: shrink_defs)
  then have s: "shrinks entries w w1"
    using shrinks_create [of ?w0] c by (auto intro: shrinks_trans)
  show ?thesis
  proof (cases x)
    case None
    have "shrinks entries w1 (w1\<lparr>redis := clear_pool ((redis w1)\<lparr>rc_available := False\<rparr>)\<rparr>)"
      by (simp add: clear_pool_def shrink_defs)
    with None c s show ?thesis
      by (auto simp: discard_connection_def redis_ready_def clear_pool_def intro: shrinks_trans)
  next
    case (Some d)
    have "shrinks entries w1 (snd (run_state (redis_release_connection d) w1))"
      by (simp add: redis_release_connection_def shrink_defs)
    with Some c s show ?thesis
      by (auto simp: discard_connection_def redis_ready_def redis_release_connection_def intro: shrinks_trans)
  qed
qed

lemma release_contract:
  "shrinks entries w (snd (run_state (redis_release_connection ctx) w)) \<and>
   redis_ready (redis (snd (run_state (redis_release_connection ctx) w)))"
  by (simp add: redis_release_connection_def shrink_defs redis_ready_def)

text \<open>The connection taken from the pool.\<close>

lemma get_connection_cases:
  assumes "redis_ready (redis w)"
  obtains "run_state redis_get_connection w = (None, w)" "\<not> rc_available (redis w)"
  | ctx rest where "rc_available (redis w)"
      "run_state redis_get_connection w = (Some ctx, w\<lparr>redis := (redis w)\<lparr>rc_conn_pool := rest\<rparr>\<rparr>)"
  using assms by (cases "rc_conn_pool (redis w)") (auto simp: redis_get_connection_def redis_ready_def)

lemma after_reply:
  assumes "shrinks entries w w1" "redis_ready (redis w2)" "shrinks entries w1 w2"
  shows "shrinks entries w w2 \<and> redis_ready (redis w2)"
  using assms by (auto intro: shrinks_trans)

lemma redis_get_contract:
  assumes "redis_ready (redis w)" "run_state (redis_get E key) w = (r, w')"
  shows "shrinks entries w w' \<and> redis_ready (redis w') \<and>
    (\<forall>v. r = Some v \<longrightarrow> rc_available (redis w) \<and> entries (redis_srv w) (c_str key) = Some v)"
  using assms(1)
proof (cases rule: get_connection_cases)
  case 1
  with assms show ?thesis by (auto simp: redis_get_def)
next
  case (2 ctx rest)
  let ?s = "snd (redis_exec E ctx (Redis_GET (c_str key)) (redis_srv w))"
  let ?w1 = "w\<lparr>redis := (redis w)\<lparr>rc_conn_pool := rest\<rparr>, redis_srv := ?s\<rparr>"
  have s1: "shrinks entries w ?w1" using get_law by (simp add: shrink_defs)
  show ?thesis
  proof (cases "fst (redis_exec E ctx (Redis_GET (c_str key)) (redis_srv w))")
    case None
    let ?w2 = "?w1\<lparr>log_calls := log_calls ?w1 @ [(ERROR, ''Redis GET failed: '' @ redis_errstr E ctx ?s)]\<rparr>"
    have "r = None" "w' = snd (run_state (discard_connection E ctx) ?w2)"
      using assms(2) 2 None by (auto simp: redis_get_def split_def)
    moreover have "shrinks entries w ?w2" using s1 by (simp add: shrink_defs)
    ultimately show ?thesis
      using discard_contract [of ?w2 ctx] by (auto intro: shrinks_trans)
  next
    case (Some x)
    have "w' = snd (run_state (redis_release_connection ctx) ?w1)"
      "r = (case x of REPLY_STRING s \<Rightarrow> Some s | _ \<Rightarrow> None)"
      using assms(2) 2 Some by (auto simp: redis_get_def split_def)
    with Some 2 show ?thesis
      using release_contract [of ?w1 ctx] get_value [of ctx "c_str key" "redis_srv w"] s1
      by (auto intro: shrinks_trans split: redis_reply.splits)
  qed
qed

lemma redis_del_contract:
  assumes "redis_ready (redis w)" "run_state (redis_del E key) w = (ok, w')"
  shows "shrinks entries w w' \<and> redis_ready (redis w') \<and> (ok \<longrightarrow> entries (redis_srv w') (c_str key) = None)"
  using assms(1)
proof (cases rule: get_connection_cases)
  case 1
  with assms show ?thesis by (auto simp: redis_del_def)
next
  case (2 ctx rest)
  let ?x = "redis_exec E ctx (Redis_DEL (c_str key)) (redis_srv w)"
  let ?w1 = "w\<lparr>redis := (redis w)\<lparr>rc_conn_pool := rest\<rparr>, redis_srv := snd ?x\<rparr>"
  have s1: "shrinks entries w ?w1" using del_law by (simp add: shrink_defs)
  show ?thesis
  proof (cases "fst ?x")
    case None
    let ?w2 = "?w1\<lparr>log_calls := log_calls ?w1 @ [(ERROR, ''Redis DEL failed: '' @ redis_errstr E ctx (snd ?x))]\<rparr>"
    have "\<not> ok" "w' = snd (run_state (discard_connection E ctx) ?w2)"
      using assms(2) 2 None by (auto simp: redis_del_def split_def)
    moreover have "shrinks entries w ?w2" using s1 by (simp add: shrink_defs)
    ultimately show ?thesis
      using discard_contract [of ?w2 ctx] by (auto intro: shrinks_trans)
  next
    case (Some x)
    have w': "w' = snd (run_state (redis_release_connection ctx) ?w1)"
      "ok = (case x of REPLY_INTEGER n \<Rightarrow> True | _ \<Rightarrow> False)"
      using assms(2) 2 Some by (auto simp: redis_del_def split_def)
    have "redis_srv w' = snd ?x" by (simp add: w' redis_release_connection_def)
    with w' Some show ?thesis
      using release_contract [of ?w1 ctx] del_removes [of ctx "c_str key" "redis_srv w"] s1
      by (auto intro: shrinks_trans split: redis_reply.splits)
  qed
qed

lemma redis_set_contract:
  assumes "redis_ready (redis w)" "run_state (redis_set E key value ttl) w = (ok, w')"
  shows "stores entries (c_str key) value w w' \<and> redis_ready (redis w')"
proof (cases "ttl \<le> 0")
  case True
  with assms show ?thesis by (simp add: redis_set_def shrinks_stores)
next
  case False
  show ?thesis
    using assms(1)
  proof (cases rule: get_connection_cases)
    case 1
    with assms False show ?thesis by (simp add: redis_set_def shrinks_stores)
  next
    case (2 ctx rest)
    let ?x = "redis_exec E ctx (Redis_SETEX (c_str key) ttl value) (redis_srv w)"
    let ?w1 = "w\<lparr>redis := (redis w)\<lparr>rc_conn_pool := rest\<rparr>, redis_srv := snd ?x\<rparr>"
    have s1: "stores entries (c_str key) value w ?w1"
      using setex_law [of ctx "c_str key" ttl "value" "redis_srv w"] by (simp add: stores_def redis_frame_def)
    show ?thesis
    proof (cases "fst ?x")
      case None
      let ?w2 = "?w1\<lparr>log_calls := log_calls ?w1 @ [(ERROR, ''Redis SETEX failed: '' @ redis_errstr E ctx (snd ?x))]\<rparr>"
      have "w' = snd (run_state (discard_connection E ctx) ?w2)"
        using assms(2) False 2 None by (auto simp: redis_set_def split_def)
      moreover have "stores entries (c_str key) value w ?w2" using s1 by (simp add: stores_def redis_frame_def)
      ultimately show ?thesis
        using discard_contract [of ?w2 ctx] by (auto intro: stores_shrinks)
    next
      case (Some x)
      have w': "w' = snd (run_state (redis_release_connection ctx) ?w1)"
        using assms(2) False 2 Some by (auto simp: redis_set_def split_def)
      then show ?thesis
        using release_contract [of ?w1 ctx] s1 by (auto intro: stores_shrinks)
    qed
  qed
qed

end

section \<open>Opening the pool\<close>

lemma redis_frame_refl [simp, intro]: "redis_frame w w"
  by (simp add: redis_frame_def)

lemma redis_frame_trans: "redis_frame u v \<Longrightarrow> redis_frame v w \<Longrightarrow> redis_frame u w"
  by (simp add: redis_frame_def)

lemma redis_frame_bind:
  "redis_frame w (snd (run_state m w)) \<Longrightarrow> (\<And>x w1. redis_frame w1 (snd (run_state (k x) w1))) \<Longrightarrow>
   redis_frame w (snd (run_state (State_Monad.bind m k) w))"
  by (auto simp: split_def intro: redis_frame_trans)

lemma handshake_frame: "redis_frame w (snd (run_state (handshake E ctx cmd label) w))"
  by (auto simp: handshake_def redis_frame_def split: option.splits redis_reply.splits)

lemma tls_frame: "redis_frame w (snd (run_state (tls_setup E ctx) w))"
  by (auto simp: tls_setup_def redis_frame_def Let_def split_def split: redis_tls_result.splits)

lemma auth_frame: "redis_frame w (snd (run_state (auth_setup E ctx) w))"
  by (simp add: auth_setup_def handshake_frame)

lemma create_connection_frame: "redis_frame w (snd (run_state (create_connection E) w))"
proof -
  have k: "redis_frame v (snd (run_state (do {
      tls \<leftarrow> tls_setup E ctx;
      if \<not> tls then State_Monad.return None
      else do { auth \<leftarrow> auth_setup E ctx;
        if \<not> auth then State_Monad.return None
        else do { ping \<leftarrow> handshake E ctx Redis_PING ''Redis ping failed: '';
          State_Monad.return (if ping then Some ctx else None) } } }) v))" for v ctx
    by (intro redis_frame_bind tls_frame)
       (auto intro!: redis_frame_bind auth_frame handshake_frame simp del: run_state_bind)
  obtain res srv where r: "redis_connect E (rc_host (redis w)) (rc_port (redis w)) (redis_srv w) = (res, srv)"
    by (cases "redis_connect E (rc_host (redis w)) (rc_port (redis w)) (redis_srv w)")
  show ?thesis
  proof (cases res)
    case (Connect_ok ctx)
    then show ?thesis
      using r k [of "w\<lparr>redis_srv := srv\<rparr>" ctx] by (simp add: create_connection_def Let_def redis_frame_def)
  qed (use r in \<open>auto simp: create_connection_def Let_def redis_frame_def\<close>)
qed

text \<open>\<^verbatim>\<open>init\<close> either fills the pool completely or leaves it empty.\<close>

lemma fill_pool_result:
  "run_state (fill_pool E n) w = (ok, w') \<Longrightarrow> redis_frame w w' \<and> rc_available (redis w') = rc_available (redis w) \<and>
   (ok \<longrightarrow> length (rc_conn_pool (redis w')) = length (rc_conn_pool (redis w)) + n)"
proof (induction n arbitrary: w)
  case 0
  then show ?case by simp
next
  case (Suc n)
  obtain x w1 where c: "run_state (create_connection E) w = (x, w1)" by (cases "run_state (create_connection E) w")
  have f: "redis_frame w w1" "same_client (redis w) (redis w1)"
    using create_connection_frame [of w E] create_connection_client [of w E] c by simp_all
  show ?case
  proof (cases x)
    case None
    with Suc.prems c f show ?thesis by (auto simp: redis_frame_def same_client_def clear_pool_def)
  next
    case (Some ctx)
    let ?w = "w1\<lparr>redis := (redis w1)\<lparr>rc_conn_pool := rc_conn_pool (redis w1) @ [ctx]\<rparr>\<rparr>"
    have "run_state (fill_pool E n) ?w = (ok, w')" using Suc.prems c Some by simp
    from Suc.IH [OF this] f show ?thesis by (auto simp: redis_frame_def same_client_def)
  qed
qed

lemma redis_init_result:
  assumes "run_state (redis_init E host port password use_tls) w = (ok, w')"
  shows "redis_frame w w' \<and> rc_available (redis w') = ok \<and> (ok \<longrightarrow> length (rc_conn_pool (redis w')) = 10)"
proof -
  let ?w = "w\<lparr>redis := (clear_pool (redis w))\<lparr>rc_host := host, rc_port := port, rc_password := password,
       rc_use_tls := use_tls, rc_max_conn := DEFAULT_REDIS_POOL_SIZE, rc_available := False\<rparr>\<rparr>"
  obtain x w1 where c: "run_state (fill_pool E 10) ?w = (x, w1)" by (cases "run_state (fill_pool E 10) ?w")
  have n: "nat DEFAULT_REDIS_POOL_SIZE = 10" by (simp add: DEFAULT_REDIS_POOL_SIZE_def)
  have "redis_frame w ?w" by (simp add: redis_frame_def)
  with fill_pool_result [OF c] have f: "redis_frame w w1" "\<not> rc_available (redis w1)"
    "x \<longrightarrow> length (rc_conn_pool (redis w1)) = 10"
    by (auto simp: clear_pool_def intro: redis_frame_trans)
  show ?thesis
    using assms c n f by (auto simp: redis_init_def redis_frame_def split: if_splits)
qed

lemma redis_init_ready:
  assumes "run_state (redis_init E host port password use_tls) w = (ok, w')"
  shows "redis_ready (redis w')"
  using redis_init_result [OF assms] by (auto simp: redis_ready_def)

end
