(* ===== verification/Resource_Cache.thy ===== *)
theory Resource_Cache
  imports Redis_Client
begin

text \<open>
  \<^verbatim>\<open>src/src/cache/resource_cache.h\<close> and \<^verbatim>\<open>resource_cache.cpp\<close>: keys, time-to-live and logging of
  the resource cache.
\<close>

section \<open>Definitions\<close>

definition RESOURCE_CACHE_TTL_SECONDS :: int where "RESOURCE_CACHE_TTL_SECONDS = 300"
definition RESOURCE_LIST_CACHE_TTL_SECONDS :: int where "RESOURCE_LIST_CACHE_TTL_SECONDS = 120"

definition resource_key :: "int \<Rightarrow> int \<Rightarrow> string" where
  "resource_key user_id resource_id = ''resource:'' @ to_string user_id @ '':'' @ to_string resource_id"

definition resources_key :: "int \<Rightarrow> string" where
  "resources_key user_id = ''resources:user:'' @ to_string user_id"

definition log_cache_get_result :: "string \<Rightarrow> string \<Rightarrow> string option \<Rightarrow> ('db, 'rd, 'ob, unit) action" where
  "log_cache_get_result label key cached =
     (case cached of
        Some v \<Rightarrow> log DEBUG (label @ '' cache hit key='' @ key @ '' bytes='' @ to_string (int (length v)))
      | None \<Rightarrow> do {
          av \<leftarrow> is_available;
          log DEBUG (label @ '' cache '' @ (if av then ''miss'' else ''redis_unavailable'') @
            '' key='' @ key) })"

definition log_cache_write_result :: "string \<Rightarrow> string \<Rightarrow> string \<Rightarrow> bool \<Rightarrow> ('db, 'rd, 'ob, unit) action" where
  "log_cache_write_result act label key ok =
     log (if ok then DEBUG else ERROR)
       (label @ '' cache '' @ act @ (if ok then '' ok key='' else '' failed key='') @ key)"

definition log_cache_set :: "string \<Rightarrow> string \<Rightarrow> int \<Rightarrow> string \<Rightarrow> bool \<Rightarrow> ('db, 'rd, 'ob, unit) action" where
  "log_cache_set label key ttl value ok =
     log (if ok then DEBUG else ERROR)
       (label @ '' cache set '' @ (if ok then ''ok'' else ''failed'') @ '' key='' @ key @
        '' ttl_seconds='' @ to_string ttl @ '' bytes='' @ to_string (int (length value)))"

definition cache_get_resource :: "('db, 'rd, 'ob) externals \<Rightarrow> int \<Rightarrow> int \<Rightarrow> ('db, 'rd, 'ob, string option) action" where
  "cache_get_resource E user_id resource_id = do {
     let key = resource_key user_id resource_id;
     cached \<leftarrow> redis_get E key;
     log_cache_get_result ''resource'' key cached;
     State_Monad.return cached
   }"

definition cache_set_resource :: "('db, 'rd, 'ob) externals \<Rightarrow> int \<Rightarrow> int \<Rightarrow> string \<Rightarrow> ('db, 'rd, 'ob, bool) action" where
  "cache_set_resource E user_id resource_id value = do {
     let key = resource_key user_id resource_id;
     ok \<leftarrow> redis_set E key value RESOURCE_CACHE_TTL_SECONDS;
     log_cache_set ''resource'' key RESOURCE_CACHE_TTL_SECONDS value ok;
     State_Monad.return ok
   }"

definition cache_invalidate_resource :: "('db, 'rd, 'ob) externals \<Rightarrow> int \<Rightarrow> int \<Rightarrow> ('db, 'rd, 'ob, bool) action" where
  "cache_invalidate_resource E user_id resource_id = do {
     let key = resource_key user_id resource_id;
     ok \<leftarrow> redis_del E key;
     log_cache_write_result ''invalidate'' ''resource'' key ok;
     State_Monad.return ok
   }"

definition cache_get_resources :: "('db, 'rd, 'ob) externals \<Rightarrow> int \<Rightarrow> ('db, 'rd, 'ob, string option) action" where
  "cache_get_resources E user_id = do {
     let key = resources_key user_id;
     cached \<leftarrow> redis_get E key;
     log_cache_get_result ''resource_list'' key cached;
     State_Monad.return cached
   }"

definition cache_set_resources :: "('db, 'rd, 'ob) externals \<Rightarrow> int \<Rightarrow> string \<Rightarrow> ('db, 'rd, 'ob, bool) action" where
  "cache_set_resources E user_id value = do {
     let key = resources_key user_id;
     ok \<leftarrow> redis_set E key value RESOURCE_LIST_CACHE_TTL_SECONDS;
     log_cache_set ''resource_list'' key RESOURCE_LIST_CACHE_TTL_SECONDS value ok;
     State_Monad.return ok
   }"

definition cache_invalidate_resources :: "('db, 'rd, 'ob) externals \<Rightarrow> int \<Rightarrow> ('db, 'rd, 'ob, bool) action" where
  "cache_invalidate_resources E user_id = do {
     let key = resources_key user_id;
     ok \<leftarrow> redis_del E key;
     log_cache_write_result ''invalidate'' ''resource_list'' key ok;
     State_Monad.return ok
   }"

section \<open>Keys\<close>

lemma colon_not_in_to_string [simp]: "CHR '':'' \<notin> set (to_string i)"
proof
  assume "CHR '':'' \<in> set (to_string i)"
  then have "isdigit (CHR '':'') \<or> CHR '':'' = CHR ''-''" by (rule to_string_chars)
  then show False by (simp add: isdigit_def)
qed

lemma split_at_colon:
  "CHR '':'' \<notin> set a \<Longrightarrow> CHR '':'' \<notin> set b \<Longrightarrow> a @ CHR '':'' # s = b @ CHR '':'' # t \<Longrightarrow> a = b \<and> s = t"
  by (induction a arbitrary: b) (auto simp: append_eq_Cons_conv Cons_eq_append_conv)

lemma resource_key_inj: "resource_key u i = resource_key u' i' \<longleftrightarrow> u = u' \<and> i = i'"
  using split_at_colon [of "to_string u" "to_string u'" "to_string i" "to_string i'"]
  by (auto simp: resource_key_def)

lemma resources_key_inj: "resources_key u = resources_key u' \<longleftrightarrow> u = u'"
  by (simp add: resources_key_def)

lemma keys_disjoint: "resource_key u i \<noteq> resources_key u'"
  by (simp add: resource_key_def resources_key_def)

lemma c_str_keys [simp]: "c_str (resource_key u i) = resource_key u i" "c_str (resources_key u) = resources_key u"
  by (simp_all add: resource_key_def resources_key_def)

lemmas key_simps [simp] = resource_key_inj resources_key_inj keys_disjoint keys_disjoint [symmetric]

section \<open>Contracts\<close>

context redis_store
begin

lemma log_get_shrinks [simp]: "shrinks entries w (snd (run_state (log_cache_get_result label key cached) w)) \<and>
    redis (snd (run_state (log_cache_get_result label key cached) w)) = redis w"
  by (simp add: log_cache_get_result_def is_available_def shrink_defs split: option.splits)

lemma cache_get_resource_contract:
  assumes "redis_ready (redis w)" "run_state (cache_get_resource E u i) w = (r, w')"
  shows "shrinks entries w w' \<and> redis_ready (redis w') \<and>
    (\<forall>v. r = Some v \<longrightarrow> rc_available (redis w) \<and> entries (redis_srv w) (resource_key u i) = Some v)"
proof -
  obtain w1 where g: "run_state (redis_get E (resource_key u i)) w = (r, w1)"
      "w' = snd (run_state (log_cache_get_result ''resource'' (resource_key u i) r) w1)"
    using assms(2) by (auto simp: cache_get_resource_def Let_def split: prod.splits)
  then show ?thesis
    using redis_get_contract [OF assms(1) g(1)] log_get_shrinks [of w1 "''resource''" "resource_key u i" r]
    by (auto intro: shrinks_trans)
qed

lemma cache_get_resources_contract:
  assumes "redis_ready (redis w)" "run_state (cache_get_resources E u) w = (r, w')"
  shows "shrinks entries w w' \<and> redis_ready (redis w') \<and>
    (\<forall>v. r = Some v \<longrightarrow> rc_available (redis w) \<and> entries (redis_srv w) (resources_key u) = Some v)"
proof -
  obtain w1 where g: "run_state (redis_get E (resources_key u)) w = (r, w1)"
      "w' = snd (run_state (log_cache_get_result ''resource_list'' (resources_key u) r) w1)"
    using assms(2) by (auto simp: cache_get_resources_def Let_def split: prod.splits)
  then show ?thesis
    using redis_get_contract [OF assms(1) g(1)] log_get_shrinks [of w1 "''resource_list''" "resources_key u" r]
    by (auto intro: shrinks_trans)
qed

lemma log_after [simp]: "shrinks entries w (w1\<lparr>log_calls := l\<rparr>) = shrinks entries w w1"
    "stores entries k v w (w1\<lparr>log_calls := l\<rparr>) = stores entries k v w w1"
  by (simp_all add: shrink_defs stores_def)

lemma cache_set_resource_contract:
  assumes "redis_ready (redis w)" "run_state (cache_set_resource E u i v) w = (ok, w')"
  shows "stores entries (resource_key u i) v w w' \<and> redis_ready (redis w')"
  using assms redis_set_contract [OF assms(1), of "resource_key u i" v RESOURCE_CACHE_TTL_SECONDS]
  by (auto simp: cache_set_resource_def log_cache_set_def Let_def split: prod.splits)

lemma cache_set_resources_contract:
  assumes "redis_ready (redis w)" "run_state (cache_set_resources E u v) w = (ok, w')"
  shows "stores entries (resources_key u) v w w' \<and> redis_ready (redis w')"
  using assms redis_set_contract [OF assms(1), of "resources_key u" v RESOURCE_LIST_CACHE_TTL_SECONDS]
  by (auto simp: cache_set_resources_def log_cache_set_def Let_def split: prod.splits)

lemma cache_invalidate_resource_contract:
  assumes "redis_ready (redis w)" "run_state (cache_invalidate_resource E u i) w = (ok, w')"
  shows "shrinks entries w w' \<and> redis_ready (redis w') \<and>
    (ok \<longrightarrow> entries (redis_srv w') (resource_key u i) = None)"
  using assms redis_del_contract [OF assms(1), of "resource_key u i"]
  by (auto simp: cache_invalidate_resource_def log_cache_write_result_def Let_def split: prod.splits)

lemma cache_invalidate_resources_contract:
  assumes "redis_ready (redis w)" "run_state (cache_invalidate_resources E u) w = (ok, w')"
  shows "shrinks entries w w' \<and> redis_ready (redis w') \<and>
    (ok \<longrightarrow> entries (redis_srv w') (resources_key u) = None)"
  using assms redis_del_contract [OF assms(1), of "resources_key u"]
  by (auto simp: cache_invalidate_resources_def log_cache_write_result_def Let_def split: prod.splits)

end

text \<open>
  A server that answers every DEL: after an invalidation the key is gone, or the cache was off anyway.
\<close>

locale redis_reliable = redis_store +
  assumes del_answers: "\<exists>n. fst (redis_exec E ctx (Redis_DEL k) s) = Some (REPLY_INTEGER n)"
begin

lemma redis_del_ok:
  assumes "redis_ready (redis w)" "rc_available (redis w)" "run_state (redis_del E key) w = (ok, w')"
  shows ok
  using assms(1)
proof (cases rule: get_connection_cases)
  case 1
  with assms show ?thesis by simp
next
  case (2 ctx rest)
  obtain n where "fst (redis_exec E ctx (Redis_DEL (c_str key)) (redis_srv w)) = Some (REPLY_INTEGER n)"
    using del_answers by blast
  with 2 assms(3) show ?thesis by (auto simp: redis_del_def split_def)
qed

lemma invalidated_resource:
  assumes "redis_ready (redis w)" "run_state (cache_invalidate_resource E u i) w = (ok, w')" "rc_available (redis w')"
  shows "entries (redis_srv w') (resource_key u i) = None"
proof -
  note c = cache_invalidate_resource_contract [OF assms(1,2)]
  then have "rc_available (redis w)" using assms(3) by (simp add: shrinks_def)
  then have ok using redis_del_ok [OF assms(1)] assms(2)
    by (auto simp: cache_invalidate_resource_def log_cache_write_result_def Let_def split: prod.splits)
  with c show ?thesis by simp
qed

lemma invalidated_resources:
  assumes "redis_ready (redis w)" "run_state (cache_invalidate_resources E u) w = (ok, w')" "rc_available (redis w')"
  shows "entries (redis_srv w') (resources_key u) = None"
proof -
  note c = cache_invalidate_resources_contract [OF assms(1,2)]
  then have "rc_available (redis w)" using assms(3) by (simp add: shrinks_def)
  then have ok using redis_del_ok [OF assms(1)] assms(2)
    by (auto simp: cache_invalidate_resources_def log_cache_write_result_def Let_def split: prod.splits)
  with c show ?thesis by simp
qed

end

end
