(* ===== verification/Storage_Service.thy ===== *)
theory Storage_Service
  imports World
begin

text \<open>
  \<^verbatim>\<open>src/src/service/storage_service.h\<close> and \<^verbatim>\<open>storage_service.cpp\<close>: filename and content-type
  validation, object keys, presigned URLs and object deletion. The MinIO and AWS clients come with
  the externals; the clock is part of the world.
\<close>

section \<open>Endpoints and filenames\<close>

record MinioEndpoint =
  me_host :: string
  me_https :: bool

definition trim_trailing_slash :: "string \<Rightarrow> string" where
  "trim_trailing_slash value = rev (dropWhile (\<lambda>c. c = CHR ''/'') (rev value))"

definition parse_minio_endpoint :: "string \<Rightarrow> MinioEndpoint" where
  "parse_minio_endpoint endpoint =
     (let host = trim_trailing_slash endpoint in
      if starts_with host ''http://'' then \<lparr>me_host = drop 7 host, me_https = False\<rparr>
      else if starts_with host ''https://'' then \<lparr>me_host = drop 8 host, me_https = True\<rparr>
      else \<lparr>me_host = host, me_https = True\<rparr>)"

definition safe_char :: "char \<Rightarrow> bool" where
  "safe_char c = (isalnum c \<or> c = CHR ''.'' \<or> c = CHR ''-'' \<or> c = CHR ''_'')"

definition sanitize_filename :: "string \<Rightarrow> string" where
  "sanitize_filename filename =
     (let clean = map (\<lambda>c. if safe_char c then c else CHR ''_'') filename
      in if clean = '''' \<or> clean = ''.'' \<or> clean = ''..'' then '''' else clean)"

definition to_lower :: "string \<Rightarrow> string" where
  "to_lower value = map tolower value"

text \<open>\<^verbatim>\<open>substr(find_last_of('.'))\<close>, lowercased.\<close>

definition file_extension :: "string \<Rightarrow> string" where
  "file_extension filename =
     (if CHR ''.'' \<notin> set filename then ''''
      else to_lower (CHR ''.'' # rev (takeWhile (\<lambda>c. c \<noteq> CHR ''.'') (rev filename))))"

definition has_path_traversal :: "string \<Rightarrow> bool" where
  "has_path_traversal filename =
     (CHR ''/'' \<in> set filename \<or> CHR 0x5C \<in> set filename \<or> contains_sub filename ''..'')"

definition allowed_content_types :: "string list" where
  "allowed_content_types =
     [''text/plain'', ''application/pdf'', ''image/png'', ''image/jpeg'', ''application/msword'',
      ''application/vnd.openxmlformats-officedocument.wordprocessingml.document'']"

definition is_allowed_content_type :: "string \<Rightarrow> bool" where
  "is_allowed_content_type content_type = (to_lower content_type \<in> set allowed_content_types)"

definition blocked_extensions :: "string list" where
  "blocked_extensions =
     [''.bat'', ''.cmd'', ''.com'', ''.dll'', ''.exe'', ''.js'', ''.ps1'', ''.sh'']"

definition is_blocked_extension :: "string \<Rightarrow> bool" where
  "is_blocked_extension filename = (file_extension filename \<in> set blocked_extensions)"

text \<open>\<^verbatim>\<open>static_cast<std::size_t>\<close> and \<^verbatim>\<open>static_cast<unsigned int>\<close> of an \<^verbatim>\<open>int\<close>.\<close>

definition size_t_of :: "int \<Rightarrow> int" where
  "size_t_of i = i mod 18446744073709551616"

definition unsigned_of :: "int \<Rightarrow> int" where
  "unsigned_of i = i mod 4294967296"

section \<open>Presigned URLs\<close>

definition log_storage_error :: "string \<Rightarrow> ('db, 'rd, 'ob, unit) action" where
  "log_storage_error message = log ERROR (''storage error: '' @ message)"

definition storage_error :: "string \<Rightarrow> ('db, 'rd, 'ob, json) action" where
  "storage_error message = do { log_storage_error message; State_Monad.return (error_json message) }"

definition bucket_of :: "('db, 'rd, 'ob) externals \<Rightarrow> string" where
  "bucket_of E = get_storage_env (environ E) ''S3_BUCKET'' ''MINIO_BUCKET'' ''webserver-files''"

definition public_endpoint_of :: "('db, 'rd, 'ob) externals \<Rightarrow> string" where
  "public_endpoint_of E = trim_trailing_slash
     (get_storage_env (environ E) ''S3_PUBLIC_ENDPOINT'' ''MINIO_PUBLIC_ENDPOINT'' ''http://localhost:9000'')"

definition region_of :: "('db, 'rd, 'ob) externals \<Rightarrow> string" where
  "region_of E = get_storage_env (environ E) ''S3_REGION'' ''MINIO_REGION'' ''us-east-1''"

text \<open>\<^verbatim>\<open>make_minio_base_url\<close> and \<^verbatim>\<open>make_minio_provider\<close>.\<close>

definition minio_client :: "('db, 'rd, 'ob) externals \<Rightarrow> string \<Rightarrow> s3_client" where
  "minio_client E endpoint =
     (let parsed = parse_minio_endpoint endpoint in
      \<lparr>s3_host = me_host parsed, s3_https = me_https parsed, s3_region = region_of E,
       s3_access = get_storage_env (environ E) ''S3_ACCESS_KEY'' ''MINIO_ACCESS_KEY'' ''minioadmin'',
       s3_secret = get_storage_env (environ E) ''S3_SECRET_KEY'' ''MINIO_SECRET_KEY'' ''minioadmin''\<rparr>)"

definition create_aws_sdk_presigned_url :: "('db, 'rd, 'ob) externals \<Rightarrow> http_method \<Rightarrow> string \<Rightarrow>
    string \<Rightarrow> int \<Rightarrow> ('db, 'rd, 'ob, exn + json) action" where
  "create_aws_sdk_presigned_url E method bucket object_key expires_seconds =
     (let access_key = get_storage_env (environ E) ''S3_ACCESS_KEY'' ''MINIO_ACCESS_KEY'' '''';
          secret_key = get_storage_env (environ E) ''S3_SECRET_KEY'' ''MINIO_SECRET_KEY'' '''' in
      if access_key = '''' \<or> secret_key = '''' then do {
        r \<leftarrow> storage_error ''missing S3 credentials'';
        State_Monad.return (Inr r) }
      else
        case aws_presign E \<lparr>s3_host = '''', s3_https = True, s3_region = region_of E,
               s3_access = access_key, s3_secret = secret_key\<rparr>
               method bucket object_key expires_seconds of
          Inl e \<Rightarrow> State_Monad.return (Inl e)
        | Inr url \<Rightarrow>
            if url = '''' then do {
              r \<leftarrow> storage_error ''failed to create AWS S3 presigned URL'';
              State_Monad.return (Inr r) }
            else State_Monad.return (Inr (JObject [(''url'', JString url)])))"

definition create_presigned_url :: "('db, 'rd, 'ob) externals \<Rightarrow> http_method \<Rightarrow> string \<Rightarrow> string \<Rightarrow>
    string \<Rightarrow> int \<Rightarrow> ('db, 'rd, 'ob, exn + json) action" where
  "create_presigned_url E method endpoint bucket object_key expires_seconds =
     (if contains_sub endpoint ''amazonaws.com''
      then create_aws_sdk_presigned_url E method bucket object_key expires_seconds
      else
        case minio_presign E (minio_client E endpoint) method bucket object_key
               (unsigned_of expires_seconds) of
          Inl e \<Rightarrow> State_Monad.return (Inl e)
        | Inr (Inl err) \<Rightarrow> do { r \<leftarrow> storage_error err; State_Monad.return (Inr r) }
        | Inr (Inr url) \<Rightarrow> State_Monad.return (Inr (JObject [(''url'', JString url)])))"

definition public_prefix :: "string \<Rightarrow> string \<Rightarrow> string" where
  "public_prefix public_endpoint bucket = public_endpoint @ ''/'' @ bucket @ ''/''"

definition extract_object_key_from_public_url :: "string \<Rightarrow> string \<Rightarrow> string \<Rightarrow> string" where
  "extract_object_key_from_public_url public_url public_endpoint bucket =
     (let prefix = public_prefix public_endpoint bucket in
      if \<not> starts_with public_url prefix then '''' else drop (length prefix) public_url)"

text \<open>The object key of an upload.\<close>

definition upload_key :: "int \<Rightarrow> int \<Rightarrow> string \<Rightarrow> string" where
  "upload_key user_id millis clean_filename =
     ''users/'' @ to_string user_id @ ''/uploads/'' @ to_string millis @ ''-'' @ clean_filename"

section \<open>The service functions\<close>

text \<open>The \<^verbatim>\<open>catch\<close> clauses of the two URL functions.\<close>

definition storage_unavailable :: "string \<Rightarrow> exn \<Rightarrow> ('db, 'rd, 'ob, json) action" where
  "storage_unavailable label e = do {
     log ERROR (case exn_what e of Some m \<Rightarrow> label @ '': '' @ m | None \<Rightarrow> label);
     State_Monad.return (error_json ''storage service unavailable'') }"

definition create_upload_url :: "('db, 'rd, 'ob) externals \<Rightarrow> int \<Rightarrow> string \<Rightarrow> string \<Rightarrow>
    ('db, 'rd, 'ob, json) action" where
  "create_upload_url E user_id filename content_type =
     (let clean_filename = sanitize_filename filename;
          max_filename_length =
            get_storage_env_int (environ E) ''S3_MAX_FILENAME_LENGTH'' ''MINIO_MAX_FILENAME_LENGTH'' 255 in
      if clean_filename = '''' then storage_error ''invalid filename''
      else if int (length filename) > size_t_of max_filename_length then storage_error ''filename too long''
      else if has_path_traversal filename then storage_error ''invalid filename''
      else if is_blocked_extension clean_filename then storage_error ''blocked file type''
      else if content_type = '''' then storage_error ''invalid content_type''
      else if \<not> is_allowed_content_type content_type then storage_error ''unsupported content_type''
      else do {
        w \<leftarrow> State_Monad.get;
        let bucket = bucket_of E;
        let public_endpoint = public_endpoint_of E;
        let object_key = upload_key user_id (clock_ms w) clean_filename;
        let public_url = public_endpoint @ ''/'' @ bucket @ ''/'' @ object_key;
        let expires_seconds =
          get_storage_env_int (environ E) ''S3_UPLOAD_URL_EXPIRES'' ''MINIO_UPLOAD_URL_EXPIRES'' 300;
        upload \<leftarrow> create_presigned_url E HTTP_PUT public_endpoint bucket object_key expires_seconds;
        (case upload of
           Inl e \<Rightarrow> storage_unavailable ''storage upload-url error'' e
         | Inr up \<Rightarrow>
             if contains up ''error'' then State_Monad.return up
             else State_Monad.return (JObject
               [(''upload_url'', member up ''url''), (''public_url'', JString public_url),
                (''object_key'', JString object_key), (''bucket'', JString bucket),
                (''content_type'', JString content_type), (''expires_in'', JInt expires_seconds)]))
      })"

definition create_download_url :: "('db, 'rd, 'ob) externals \<Rightarrow> string \<Rightarrow> ('db, 'rd, 'ob, json) action" where
  "create_download_url E public_url =
     (let bucket = bucket_of E;
          public_endpoint = public_endpoint_of E;
          object_key = extract_object_key_from_public_url public_url public_endpoint bucket;
          expires_seconds =
            get_storage_env_int (environ E) ''S3_DOWNLOAD_URL_EXPIRES'' ''MINIO_DOWNLOAD_URL_EXPIRES'' 300 in
      if object_key = '''' then storage_error ''invalid file url''
      else do {
        download \<leftarrow> create_presigned_url E HTTP_GET public_endpoint bucket object_key expires_seconds;
        (case download of
           Inl e \<Rightarrow> storage_unavailable ''storage download-url error'' e
         | Inr dn \<Rightarrow>
             if contains dn ''error'' then State_Monad.return dn
             else State_Monad.return (JObject
               [(''download_url'', member dn ''url''), (''public_url'', JString public_url),
                (''object_key'', JString object_key), (''bucket'', JString bucket),
                (''expires_in'', JInt expires_seconds)]))
      })"

text \<open>\<^verbatim>\<open>delete_file\<close> returns its flag and the value left in the \<^verbatim>\<open>error\<close> reference.\<close>

definition delete_file :: "('db, 'rd, 'ob) externals \<Rightarrow> string \<Rightarrow> string \<Rightarrow>
    ('db, 'rd, 'ob, bool \<times> string) action" where
  "delete_file E public_url error =
     (let bucket = bucket_of E;
          public_endpoint = public_endpoint_of E;
          internal_endpoint = trim_trailing_slash
            (get_storage_env (environ E) ''S3_ENDPOINT'' ''MINIO_ENDPOINT'' public_endpoint);
          object_key = extract_object_key_from_public_url public_url public_endpoint bucket in
      if object_key = '''' then do {
        log_storage_error ''invalid file url'';
        State_Monad.return (False, ''invalid file url'') }
      else do {
        w \<leftarrow> State_Monad.get;
        let (resp, obj) = minio_remove E (minio_client E internal_endpoint) bucket object_key (objects w);
        State_Monad.update (\<lambda>w. w\<lparr>objects := obj\<rparr>);
        (case resp of
           Inl e \<Rightarrow> do {
             let msg = (case exn_what e of
                Some m \<Rightarrow> ''storage delete error: '' @ m | None \<Rightarrow> ''storage delete error'');
             log ERROR msg;
             State_Monad.return (False, msg) }
         | Inr (Inl err) \<Rightarrow> do {
             log_storage_error err;
             State_Monad.return (False, err) }
         | Inr (Inr _) \<Rightarrow> State_Monad.return (True, error))
      })"

section \<open>Lemmas\<close>

lemma extract_prefixed: "extract_object_key_from_public_url (public_prefix e b @ k) e b = k"
  by (simp add: extract_object_key_from_public_url_def Let_def)

lemma extract_public_url [simp]:
  "extract_object_key_from_public_url (e @ ''/'' @ b @ ''/'' @ k) e b = k"
  using extract_prefixed [of e b k] by (simp add: public_prefix_def)

lemma extract_object_key_sound:
  "extract_object_key_from_public_url url e b = k \<Longrightarrow> k \<noteq> '''' \<Longrightarrow> url = public_prefix e b @ k"
  using starts_withD [of url "public_prefix e b"]
  by (auto simp: extract_object_key_from_public_url_def Let_def split: if_splits)

lemma safe_char_underscore [simp]: "safe_char (CHR ''_'')"
  by (simp add: safe_char_def)

lemma not_safe_slash [simp]: "\<not> safe_char (CHR ''/'')"
  by (simp add: safe_char_def isalnum_def isdigit_def isupper_def islower_def)

lemma sanitize_safe: "c \<in> set (sanitize_filename f) \<Longrightarrow> safe_char c"
  by (auto simp: sanitize_filename_def Let_def split: if_splits)

lemma sanitize_length: "sanitize_filename f \<noteq> '''' \<Longrightarrow> length (sanitize_filename f) = length f"
  by (auto simp: sanitize_filename_def Let_def split: if_splits)

lemma upload_key_nonempty [simp]: "upload_key u t f \<noteq> ''''"
  by (simp add: upload_key_def)

text \<open>Signing a URL writes nothing but the log.\<close>

lemma presigned_same_but_log: "same_but_log w (snd (run_state (create_presigned_url E m e b k x) w))"
  by (simp add: create_presigned_url_def create_aws_sdk_presigned_url_def storage_error_def
      log_storage_error_def Let_def split: sum.splits)

text \<open>The object that \<^const>\<open>delete_file\<close> addresses, and the request it sends to the store.\<close>

definition object_key_of :: "('db, 'rd, 'ob) externals \<Rightarrow> string \<Rightarrow> string" where
  "object_key_of E url = extract_object_key_from_public_url url (public_endpoint_of E) (bucket_of E)"

definition remove_request :: "('db, 'rd, 'ob) externals \<Rightarrow> string \<Rightarrow> 'ob \<Rightarrow> (exn + (string + unit)) \<times> 'ob" where
  "remove_request E url = minio_remove E
     (minio_client E (trim_trailing_slash
        (get_storage_env (environ E) ''S3_ENDPOINT'' ''MINIO_ENDPOINT'' (public_endpoint_of E))))
     (bucket_of E) (object_key_of E url)"

lemma delete_file_run:
  "\<exists>l e'. run_state (delete_file E url e) w =
     ((object_key_of E url \<noteq> '''' \<and> fst (remove_request E url (objects w)) = Inr (Inr ()), e'),
      w\<lparr>objects := (if object_key_of E url = '''' then objects w else snd (remove_request E url (objects w))),
        log_calls := l\<rparr>)"
proof (cases "object_key_of E url = ''''")
  case True
  then have "run_state (delete_file E url e) w = ((False, ''invalid file url''),
      w\<lparr>log_calls := log_calls w @ [(ERROR, ''storage error: '' @ ''invalid file url'')]\<rparr>)"
    by (simp add: delete_file_def object_key_of_def log_storage_error_def Let_def)
  with True show ?thesis by auto
next
  case False
  obtain resp ob where r: "remove_request E url (objects w) = (resp, ob)"
    by (cases "remove_request E url (objects w)")
  then have m: "minio_remove E (minio_client E (trim_trailing_slash
      (get_storage_env (environ E) ''S3_ENDPOINT'' ''MINIO_ENDPOINT'' (public_endpoint_of E))))
      (bucket_of E) (extract_object_key_from_public_url url (public_endpoint_of E) (bucket_of E)) (objects w) = (resp, ob)"
    by (simp only: remove_request_def object_key_of_def)
  have k: "extract_object_key_from_public_url url (public_endpoint_of E) (bucket_of E) \<noteq> ''''"
    using False by (simp add: object_key_of_def)
  show ?thesis
  proof (cases resp)
    case (Inl x)
    then have "\<exists>l e'. run_state (delete_file E url e) w = ((False, e'), w\<lparr>objects := ob, log_calls := l\<rparr>)"
      using m k by (simp add: delete_file_def Let_def) blast
    with False r Inl show ?thesis by auto
  next
    case (Inr y)
    show ?thesis
    proof (cases y)
      case (Inl x)
      then have "\<exists>l e'. run_state (delete_file E url e) w = ((False, e'), w\<lparr>objects := ob, log_calls := l\<rparr>)"
        using m k \<open>resp = Inr y\<close> by (simp add: delete_file_def log_storage_error_def Let_def) blast
      with False r Inl \<open>resp = Inr y\<close> show ?thesis by auto
    next
      case (Inr x)
      then have "run_state (delete_file E url e) w = ((True, e), w\<lparr>objects := ob, log_calls := log_calls w\<rparr>)"
        using m k \<open>resp = Inr y\<close> by (simp add: delete_file_def Let_def)
      with False r Inr \<open>resp = Inr y\<close> show ?thesis
        by (intro exI [of _ "log_calls w"] exI [of _ e]) simp
    qed
  qed
qed

end
