(* ===== verification/Resource_Service.thy ===== *)
theory Resource_Service
  imports Resource_Dao Resource_Cache Storage_Service
begin

text \<open>
  \<^verbatim>\<open>src/src/service/resource_service.h\<close> and \<^verbatim>\<open>resource_service.cpp\<close>: the resource operations over
  the table, the cache and the object store. The exceptions that can reach the \<^verbatim>\<open>catch\<close> clauses are
  the ones of \<^verbatim>\<open>res_json::dump\<close> (a string that is not UTF-8).
\<close>

section \<open>Definitions\<close>

record ResourceInfo =
  ri_id :: int
  ri_user_id :: int
  ri_title :: string
  ri_content :: string
  ri_is_file :: bool

definition parse_cached_json :: "('db, 'rd, 'ob) externals \<Rightarrow> string option \<Rightarrow>
    ('db, 'rd, 'ob, json option) action" where
  "parse_cached_json E cached =
     (case cached of
        None \<Rightarrow> State_Monad.return None
      | Some s \<Rightarrow>
          (case json_parse E s of
             Inl e \<Rightarrow> do {
               log ERROR ''failed to parse cached resource JSON'';
               State_Monad.return None }
           | Inr j \<Rightarrow> State_Monad.return (Some j)))"

definition service_error :: "string \<Rightarrow> exn \<Rightarrow> ('db, 'rd, 'ob, json) action" where
  "service_error act e = do {
     log ERROR (case exn_what e of
        Some what \<Rightarrow> ''resource service error while '' @ act @ '': '' @ what
      | None \<Rightarrow> ''resource service error while '' @ act);
     State_Monad.return (error_json ''resource service unavailable'')
   }"

text \<open>\<^verbatim>\<open>res["error"] = ResourceDAO::msg; return res;\<close>\<close>

definition dao_error :: "('db, 'rd, 'ob, json) action" where
  "dao_error = State (\<lambda>w. (error_json (resource_msg w), w))"

definition create_resource :: "('db, 'rd, 'ob) externals \<Rightarrow> ResourceInfo \<Rightarrow> ('db, 'rd, 'ob, json) action" where
  "create_resource E info = do {
     ok \<leftarrow> dao_create_resource E \<lparr>res_id = 0, res_user_id = ri_user_id info, res_title = ri_title info,
             res_content = ri_content info, res_is_file = ri_is_file info\<rparr>;
     if \<not> ok then dao_error
     else do {
       cache_invalidate_resources E (ri_user_id info);
       State_Monad.return (status_json ''created'') }
   }"

definition resource_item :: "Resource \<Rightarrow> json" where
  "resource_item r = JObject
     [(''id'', JInt (res_id r)), (''title'', JString (res_title r)),
      (''content'', JString (res_content r)), (''is_file'', JBool (res_is_file r))]"

definition resource_list :: "Resource list \<Rightarrow> json" where
  "resource_list rs = JObject [(''data'', JArray (map resource_item rs))]"

definition get_resources :: "('db, 'rd, 'ob) externals \<Rightarrow> int \<Rightarrow> ('db, 'rd, 'ob, json) action" where
  "get_resources E user_id = do {
     raw \<leftarrow> cache_get_resources E user_id;
     cached \<leftarrow> parse_cached_json E raw;
     (case cached of
        Some j \<Rightarrow> do {
          log DEBUG (''resource list cache hit user_id='' @ to_string user_id);
          State_Monad.return j }
      | None \<Rightarrow> do {
          vec \<leftarrow> dao_get_resources E user_id;
          w \<leftarrow> State_Monad.get;
          if resource_msg w \<noteq> '''' then dao_error
          else (case json_dump E (resource_list vec) of
              Inl e \<Rightarrow> service_error ''loading resources'' e
            | Inr s \<Rightarrow> do {
                cache_set_resources E user_id s;
                State_Monad.return (resource_list vec) })
        })
   }"

definition get_resource :: "('db, 'rd, 'ob) externals \<Rightarrow> int \<Rightarrow> int \<Rightarrow> ('db, 'rd, 'ob, json) action" where
  "get_resource E user_id rid = do {
     raw \<leftarrow> cache_get_resource E user_id rid;
     cached \<leftarrow> parse_cached_json E raw;
     (case cached of
        Some j \<Rightarrow> do {
          log DEBUG (''resource cache hit user_id='' @ to_string user_id @ '' id='' @ to_string rid);
          State_Monad.return j }
      | None \<Rightarrow> do {
          resource \<leftarrow> dao_get_resource E user_id rid;
          (case resource of
             None \<Rightarrow> dao_error
           | Some r \<Rightarrow>
               (case json_dump E (resource_item r) of
                  Inl e \<Rightarrow> service_error ''loading a resource'' e
                | Inr s \<Rightarrow> do {
                    cache_set_resource E user_id rid s;
                    State_Monad.return (resource_item r) }))
        })
   }"

definition get_file_download_url :: "('db, 'rd, 'ob) externals \<Rightarrow> int \<Rightarrow> int \<Rightarrow> ('db, 'rd, 'ob, json) action" where
  "get_file_download_url E user_id rid = do {
     resource \<leftarrow> dao_get_resource E user_id rid;
     (case resource of
        None \<Rightarrow> dao_error
      | Some r \<Rightarrow>
          if \<not> res_is_file r then State_Monad.return (error_json ''resource is not file'')
          else create_download_url E (res_content r))
   }"

definition update_resource :: "('db, 'rd, 'ob) externals \<Rightarrow> ResourceInfo \<Rightarrow> ('db, 'rd, 'ob, json) action" where
  "update_resource E info = do {
     ok \<leftarrow> dao_update_resource E \<lparr>res_id = ri_id info, res_user_id = ri_user_id info,
             res_title = ri_title info, res_content = ri_content info, res_is_file = False\<rparr>;
     if \<not> ok then dao_error
     else do {
       cache_invalidate_resource E (ri_user_id info) (ri_id info);
       cache_invalidate_resources E (ri_user_id info);
       State_Monad.return (status_json ''updated'') }
   }"

text \<open>The two halves of \<^verbatim>\<open>delete_resource\<close>: the object of a file resource, then the row.\<close>

definition delete_row :: "('db, 'rd, 'ob) externals \<Rightarrow> int \<Rightarrow> int \<Rightarrow> ('db, 'rd, 'ob, json) action" where
  "delete_row E user_id rid = do {
     ok \<leftarrow> dao_delete_resource E user_id rid;
     if \<not> ok then dao_error
     else do {
       cache_invalidate_resource E user_id rid;
       cache_invalidate_resources E user_id;
       State_Monad.return (status_json ''deleted'') }
   }"

definition delete_resource :: "('db, 'rd, 'ob) externals \<Rightarrow> int \<Rightarrow> int \<Rightarrow> ('db, 'rd, 'ob, json) action" where
  "delete_resource E user_id rid = do {
     resource \<leftarrow> dao_get_resource E user_id rid;
     (case resource of
        None \<Rightarrow> dao_error
      | Some r \<Rightarrow>
          if res_is_file r then do {
            (deleted, error) \<leftarrow> delete_file E (res_content r) ''failed to delete file'';
            if \<not> deleted then State_Monad.return (error_json error)
            else delete_row E user_id rid }
          else delete_row E user_id rid)
   }"

section \<open>Lemmas\<close>

lemma run_dao_error [simp]: "run_state dao_error w = (error_json (resource_msg w), w)"
  by (simp add: dao_error_def)

lemma no_error_item [simp]: "\<not> contains (resource_item r) ''error''"
  by (simp add: resource_item_def)

lemma no_error_list [simp]: "\<not> contains (resource_list rs) ''error''"
  by (simp add: resource_list_def)

section \<open>Cache coherence\<close>

text \<open>
  Every cached value is the JSON text of what the table holds: one row under the key of its owner and
  id, all rows of a user under the key of the list.
\<close>

definition coherent :: "('db, 'rd, 'ob) externals \<Rightarrow> Resource set \<Rightarrow> (string \<rightharpoonup> string) \<Rightarrow> bool" where
  "coherent E T m =
     ((\<forall>u i s. m (resource_key u i) = Some s \<longrightarrow> (\<exists>y \<in> T. owned u i y \<and> json_parse E s = Inr (resource_item y))) \<and>
      (\<forall>u s. m (resources_key u) = Some s \<longrightarrow> (\<exists>ys. distinct ys \<and> set ys = {y \<in> T. res_user_id y = u} \<and>
         json_parse E s = Inr (resource_list ys))))"

lemma map_leD: "m' \<subseteq>\<^sub>m m \<Longrightarrow> m' k = Some s \<Longrightarrow> m k = Some s"
  unfolding map_le_def by (metis domI)

lemma coherent_mono: "coherent E T m \<Longrightarrow> m' \<subseteq>\<^sub>m m \<Longrightarrow> coherent E T m'"
  unfolding coherent_def by (meson map_leD)

lemma coherent_resource:
  "coherent E T m \<Longrightarrow> y \<in> T \<Longrightarrow> owned u i y \<Longrightarrow> json_parse E s = Inr (resource_item y) \<Longrightarrow>
   coherent E T (m(resource_key u i \<mapsto> s))"
  by (auto simp: coherent_def)

lemma coherent_resources:
  "coherent E T m \<Longrightarrow> distinct ys \<Longrightarrow> set ys = {y \<in> T. res_user_id y = u} \<Longrightarrow>
   json_parse E s = Inr (resource_list ys) \<Longrightarrow> coherent E T (m(resources_key u \<mapsto> s))"
  by (auto simp: coherent_def)

text \<open>Two tables that differ in the row \<open>(u, i)\<close> at most.\<close>

definition differ_at :: "int \<Rightarrow> int \<Rightarrow> Resource set \<Rightarrow> Resource set \<Rightarrow> bool" where
  "differ_at u i T T' = (\<forall>y. \<not> owned u i y \<longrightarrow> (y \<in> T' \<longleftrightarrow> y \<in> T))"

lemma coherent_change:
  assumes "coherent E T m" "m' \<subseteq>\<^sub>m m" "differ_at u i T T'"
    "m' (resource_key u i) = None \<or> (\<forall>y \<in> T. \<not> owned u i y)" "m' (resources_key u) = None"
  shows "coherent E T' m'"
proof -
  have c: "coherent E T m'" by (rule coherent_mono [OF assms(1,2)])
  have k: "m' (resource_key u i) = None"
    using c assms(4) unfolding coherent_def by (metis option.exhaust)
  have "{y \<in> T'. res_user_id y = u'} = {y \<in> T. res_user_id y = u'}" if "u' \<noteq> u" for u'
    using assms(3) that by (auto simp: differ_at_def owned_def)
  moreover have "y \<in> T' \<longleftrightarrow> y \<in> T" if "owned u' i' y" "(u', i') \<noteq> (u, i)" for u' i' y
    using assms(3) that by (auto simp: differ_at_def owned_def)
  ultimately have eq: "u' \<noteq> u \<Longrightarrow> {y \<in> T'. res_user_id y = u'} = {y \<in> T. res_user_id y = u'}"
    "owned u' i' y \<Longrightarrow> (u', i') \<noteq> (u, i) \<Longrightarrow> y \<in> T' \<longleftrightarrow> y \<in> T" for u' i' y
    by blast+
  show ?thesis
    unfolding coherent_def
  proof (intro conjI allI impI)
    fix u' i' s
    assume m: "m' (resource_key u' i') = Some s"
    then have ne: "(u', i') \<noteq> (u, i)" using k by auto
    from c m obtain y where "y \<in> T" "owned u' i' y" "json_parse E s = Inr (resource_item y)"
      unfolding coherent_def by blast
    with eq(2) [OF _ ne] show "\<exists>y \<in> T'. owned u' i' y \<and> json_parse E s = Inr (resource_item y)" by blast
  next
    fix u' s
    assume m: "m' (resources_key u') = Some s"
    then have "u' \<noteq> u" using assms(5) by auto
    with c m eq(1) show "\<exists>ys. distinct ys \<and> set ys = {y \<in> T'. res_user_id y = u'} \<and>
        json_parse E s = Inr (resource_list ys)"
      unfolding coherent_def by simp
  qed
qed

lemma run_service_error:
  "\<exists>l. run_state (service_error act e) w = (error_json ''resource service unavailable'', w\<lparr>log_calls := l\<rparr>)"
  by (simp add: service_error_def) blast

lemma resource_item_user [simp]: "resource_item (y\<lparr>res_user_id := u\<rparr>) = resource_item y"
  by (simp add: resource_item_def)

lemma resource_list_user [simp]: "resource_list (map (\<lambda>y. y\<lparr>res_user_id := u\<rparr>) ys) = resource_list ys"
  by (simp add: resource_list_def)

lemma resource_item_wf [simp]: "json_wf (resource_item y)"
  by (simp add: resource_item_def)

lemma resource_list_wf [simp]: "json_wf (resource_list ys)"
  by (auto simp: resource_list_def)

text \<open>The state of the service between two requests.\<close>

definition service_inv :: "('db, 'rd, 'ob) externals \<Rightarrow> ('db \<Rightarrow> Resource set) \<Rightarrow> ('db \<Rightarrow> bool) \<Rightarrow>
    ('rd \<Rightarrow> string \<rightharpoonup> string) \<Rightarrow> ('db, 'rd, 'ob) world \<Rightarrow> bool" where
  "service_inv E tbl ok entries w = (pool_ready (pg_pool w) \<and> redis_ready (redis w) \<and> ok (db w) \<and>
     (rc_available (redis w) \<longrightarrow> coherent E (tbl (db w)) (entries (redis_srv w))))"

lemma inv_log [simp]: "service_inv E tbl ok entries (w\<lparr>log_calls := l\<rparr>) = service_inv E tbl ok entries w"
  by (simp add: service_inv_def)

lemma inv_shrinks:
  "service_inv E tbl ok entries w \<Longrightarrow> shrinks entries w w' \<Longrightarrow> redis_ready (redis w') \<Longrightarrow>
   service_inv E tbl ok entries w' \<and> db w' = db w"
  by (auto simp: service_inv_def shrinks_def redis_frame_def intro: coherent_mono)

lemma inv_dao:
  "service_inv E tbl ok entries w \<Longrightarrow> dao_frame w w' \<Longrightarrow> tbl (db w') = tbl (db w) \<Longrightarrow> ok (db w') \<Longrightarrow>
   service_inv E tbl ok entries w'"
  by (auto simp: service_inv_def dao_frame_def)

lemma inv_stores:
  assumes "service_inv E tbl ok entries w" "stores entries k v w w'" "redis_ready (redis w')"
    "\<And>m. coherent E (tbl (db w)) m \<Longrightarrow> coherent E (tbl (db w)) (m(k \<mapsto> v))"
  shows "service_inv E tbl ok entries w' \<and> db w' = db w"
proof -
  have f: "db w' = db w" "pg_pool w' = pg_pool w" using assms(2) by (auto simp: stores_def redis_frame_def)
  have "coherent E (tbl (db w)) (entries (redis_srv w'))" if "rc_available (redis w')"
    using assms(1,2,4) that by (auto simp: stores_def service_inv_def intro: coherent_mono)
  with assms(1,3) f show ?thesis by (auto simp: service_inv_def)
qed

locale resource_store = pg_resources E tbl ok + redis_store E entries + json_library "json_parse E" "json_dump E"
  for E :: "('db, 'rd, 'ob) externals" and tbl :: "'db \<Rightarrow> Resource set" and ok :: "'db \<Rightarrow> bool"
    and entries :: "'rd \<Rightarrow> string \<rightharpoonup> string"
begin

abbreviation inv where "inv \<equiv> service_inv E tbl ok entries"

lemma get_resource_contract:
  assumes "inv w" "int32 u" "int32 i" "run_state (get_resource E u i) w = (j, w')"
  shows "inv w' \<and> tbl (db w') = tbl (db w) \<and>
    (contains j ''error'' \<or> (\<exists>y \<in> tbl (db w). owned u i y \<and> j = resource_item y))"
proof -
  obtain raw w1 where c: "run_state (cache_get_resource E u i) w = (raw, w1)"
    by (cases "run_state (cache_get_resource E u i) w")
  have ready: "redis_ready (redis w)" using assms(1) by (simp add: service_inv_def)
  note g = cache_get_resource_contract [OF ready c]
  have i1: "inv w1" "db w1 = db w" using inv_shrinks [OF assms(1)] g by auto
  show ?thesis
  proof (cases raw)
    case (Some v)
    then have "rc_available (redis w)" "entries (redis_srv w) (resource_key u i) = Some v" using g by auto
    then obtain y where y: "y \<in> tbl (db w)" "owned u i y" "json_parse E v = Inr (resource_item y)"
      using assms(1) unfolding service_inv_def coherent_def by blast
    then have "j = resource_item y" "w' = w1\<lparr>log_calls := log_calls w1 @
        [(DEBUG, ''resource cache hit user_id='' @ to_string u @ '' id='' @ to_string i)]\<rparr>"
      using assms(4) c Some by (simp_all add: get_resource_def parse_cached_json_def)
    with y i1 show ?thesis by auto
  next
    case None
    obtain x w2 where d: "run_state (dao_get_resource E u i) w1 = (x, w2)"
      by (cases "run_state (dao_get_resource E u i) w1")
    have p1: "pool_ready (pg_pool w1)" "ok (db w1)" using i1 by (auto simp: service_inv_def)
    note dc = dao_get_resource_contract [OF p1 assms(2,3) d]
    have i2: "inv w2"
      by (rule inv_dao [OF i1(1)]) (use dao_get_resource_frame [OF p1(1), of E u i] d dc in auto)
    show ?thesis
    proof (cases x)
      case None
      then have "j = error_json (resource_msg w2)" "w' = w2"
        using assms(4) c d \<open>raw = None\<close> by (auto simp: get_resource_def parse_cached_json_def)
      with i1 i2 dc show ?thesis by simp
    next
      case (Some r)
      then obtain y where y: "y \<in> tbl (db w)" "owned u i y" "r = y\<lparr>res_user_id := 0\<rparr>" using dc i1 by auto
      show ?thesis
      proof (cases "json_dump E (resource_item r)")
        case (Inl e)
        obtain l where "run_state (service_error ''loading a resource'' e) w2 =
            (error_json ''resource service unavailable'', w2\<lparr>log_calls := l\<rparr>)"
          using run_service_error by blast
        then have "j = error_json ''resource service unavailable''" "w' = w2\<lparr>log_calls := l\<rparr>"
          using assms(4) c d \<open>raw = None\<close> Some Inl by (simp_all add: get_resource_def parse_cached_json_def)
        with i1 i2 dc show ?thesis by simp
      next
        case (Inr s)
        obtain b w3 where st: "run_state (cache_set_resource E u i s) w2 = (b, w3)"
          by (cases "run_state (cache_set_resource E u i s) w2")
        have ready2: "redis_ready (redis w2)" using i2 by (simp add: service_inv_def)
        have p: "json_parse E s = Inr (resource_item y)" using parse_dump [OF _ Inr] y(3) by simp
        have "inv w3 \<and> db w3 = db w2"
          by (rule inv_stores [OF i2]) (use cache_set_resource_contract [OF ready2 st] y p dc i1 coherent_resource in auto)
        moreover have "j = resource_item y" "w' = w3"
          using assms(4) c d \<open>raw = None\<close> Some Inr st y(3)
          by (auto simp: get_resource_def parse_cached_json_def)
        ultimately show ?thesis using y dc i1 by auto
      qed
    qed
  qed
qed

lemma get_resources_contract:
  assumes "inv w" "int32 u" "run_state (get_resources E u) w = (j, w')"
  shows "inv w' \<and> tbl (db w') = tbl (db w) \<and>
    (contains j ''error'' \<or> (\<exists>ys. distinct ys \<and> set ys = {y \<in> tbl (db w). res_user_id y = u} \<and> j = resource_list ys))"
proof -
  obtain raw w1 where c: "run_state (cache_get_resources E u) w = (raw, w1)"
    by (cases "run_state (cache_get_resources E u) w")
  have ready: "redis_ready (redis w)" using assms(1) by (simp add: service_inv_def)
  note g = cache_get_resources_contract [OF ready c]
  have i1: "inv w1" "db w1 = db w" using inv_shrinks [OF assms(1)] g by auto
  show ?thesis
  proof (cases raw)
    case (Some v)
    then have "rc_available (redis w)" "entries (redis_srv w) (resources_key u) = Some v" using g by auto
    then obtain ys where y: "distinct ys" "set ys = {y \<in> tbl (db w). res_user_id y = u}"
        "json_parse E v = Inr (resource_list ys)"
      using assms(1) unfolding service_inv_def coherent_def by blast
    then have "j = resource_list ys" "w' = w1\<lparr>log_calls := log_calls w1 @
        [(DEBUG, ''resource list cache hit user_id='' @ to_string u)]\<rparr>"
      using assms(3) c Some by (simp_all add: get_resources_def parse_cached_json_def)
    with y i1 show ?thesis by auto
  next
    case None
    obtain x w2 where d: "run_state (dao_get_resources E u) w1 = (x, w2)"
      by (cases "run_state (dao_get_resources E u) w1")
    have p1: "pool_ready (pg_pool w1)" "ok (db w1)" using i1 by (auto simp: service_inv_def)
    note dc = dao_get_resources_contract [OF p1 assms(2) d]
    have i2: "inv w2"
      by (rule inv_dao [OF i1(1)]) (use dao_get_resources_frame [OF p1(1), of E u] d dc in auto)
    show ?thesis
    proof (cases "resource_msg w2 = ''''")
      case False
      then have "j = error_json (resource_msg w2)" "w' = w2"
        using assms(3) c d None by (auto simp: get_resources_def parse_cached_json_def)
      with i1 i2 dc show ?thesis by simp
    next
      case True
      then obtain ys where y: "distinct ys" "set ys = {y \<in> tbl (db w). res_user_id y = u}"
          "resource_list x = resource_list ys"
        using dc i1 by auto
      show ?thesis
      proof (cases "json_dump E (resource_list x)")
        case (Inl e)
        obtain l where "run_state (service_error ''loading resources'' e) w2 =
            (error_json ''resource service unavailable'', w2\<lparr>log_calls := l\<rparr>)"
          using run_service_error by blast
        then have "j = error_json ''resource service unavailable''" "w' = w2\<lparr>log_calls := l\<rparr>"
          using assms(3) c d None True Inl by (simp_all add: get_resources_def parse_cached_json_def)
        with i1 i2 dc show ?thesis by simp
      next
        case (Inr s)
        obtain b w3 where st: "run_state (cache_set_resources E u s) w2 = (b, w3)"
          by (cases "run_state (cache_set_resources E u s) w2")
        have ready2: "redis_ready (redis w2)" using i2 by (simp add: service_inv_def)
        have p: "json_parse E s = Inr (resource_list ys)" using parse_dump [OF _ Inr] y(3) by simp
        have "inv w3 \<and> db w3 = db w2"
          by (rule inv_stores [OF i2])
             (use cache_set_resources_contract [OF ready2 st] y p dc i1 coherent_resources in auto)
        moreover have "j = resource_list ys" "w' = w3"
          using assms(3) c d None True Inr st y(3) by (auto simp: get_resources_def parse_cached_json_def)
        ultimately show ?thesis using y dc i1 by auto
      qed
    qed
  qed
qed

end

text \<open>The writing operations need the invalidation to be answered.\<close>

locale resource_store_reliable = resource_store E tbl ok entries + redis_reliable E entries
  for E :: "('db, 'rd, 'ob) externals" and tbl :: "'db \<Rightarrow> Resource set" and ok :: "'db \<Rightarrow> bool"
    and entries :: "'rd \<Rightarrow> string \<rightharpoonup> string"
begin

text \<open>Both invalidations after a change of the row \<open>(u, i)\<close>.\<close>

lemma invalidate_both:
  assumes old: "service_inv E tbl ok entries w0" and w: "pool_ready (pg_pool w)" "redis w = redis w0"
      "redis_srv w = redis_srv w0" "ok (db w)" "differ_at u i (tbl (db w0)) (tbl (db w))"
    and i1: "run_state (cache_invalidate_resource E u i) w = (a, w1)"
    and i2: "run_state (cache_invalidate_resources E u) w1 = (b, w2)"
  shows "inv w2 \<and> db w2 = db w"
proof -
  have r: "redis_ready (redis w)" using old w(2) by (simp add: service_inv_def)
  note c1 = cache_invalidate_resource_contract [OF r i1]
  have r1: "redis_ready (redis w1)" using c1 by simp
  note c2 = cache_invalidate_resources_contract [OF r1 i2]
  have s: "shrinks entries w w2" using c1 c2 by (blast intro: shrinks_trans)
  have f: "db w2 = db w" "pg_pool w2 = pg_pool w" using s by (auto simp: shrinks_def redis_frame_def)
  have "coherent E (tbl (db w)) (entries (redis_srv w2))" if av: "rc_available (redis w2)"
  proof (rule coherent_change [OF _ _ w(5)])
    have av1: "rc_available (redis w1)" using c2 av by (simp add: shrinks_def)
    show "coherent E (tbl (db w0)) (entries (redis_srv w0))"
      using old s av w(2) by (auto simp: service_inv_def shrinks_def)
    show "entries (redis_srv w2) \<subseteq>\<^sub>m entries (redis_srv w0)" using s w(3) by (simp add: shrinks_def)
    show "entries (redis_srv w2) (resources_key u) = None" by (rule invalidated_resources [OF r1 i2 av])
    have "entries (redis_srv w1) (resource_key u i) = None" by (rule invalidated_resource [OF r i1 av1])
    moreover have "entries (redis_srv w2) \<subseteq>\<^sub>m entries (redis_srv w1)" using c2 by (simp add: shrinks_def)
    ultimately have "entries (redis_srv w2) (resource_key u i) = None"
      by (cases "entries (redis_srv w2) (resource_key u i)") (auto dest: map_leD)
    then show "entries (redis_srv w2) (resource_key u i) = None \<or> (\<forall>y \<in> tbl (db w0). \<not> owned u i y)" ..
  qed
  with w(1,4) c2 f show ?thesis by (simp add: service_inv_def)
qed

lemma create_resource_contract:
  assumes "inv w" "int32 (ri_user_id q)" "run_state (create_resource E q) w = (j, w')"
  shows "inv w' \<and> (if contains j ''error'' then tbl (db w') = tbl (db w)
    else \<exists>i. i \<notin> res_id ` tbl (db w) \<and> tbl (db w') = insert \<lparr>res_id = i, res_user_id = ri_user_id q,
      res_title = c_str (ri_title q), res_content = c_str (ri_content q), res_is_file = ri_is_file q\<rparr> (tbl (db w)))"
proof -
  let ?r = "\<lparr>res_id = 0, res_user_id = ri_user_id q, res_title = ri_title q, res_content = ri_content q,
    res_is_file = ri_is_file q\<rparr>"
  obtain dn w1 where d: "run_state (dao_create_resource E ?r) w = (dn, w1)"
    by (cases "run_state (dao_create_resource E ?r) w")
  have p: "pool_ready (pg_pool w)" "ok (db w)" "redis_ready (redis w)" using assms(1) by (auto simp: service_inv_def)
  have dc: "ok (db w1)" "\<not> dn \<Longrightarrow> tbl (db w1) = tbl (db w)"
    "dn \<Longrightarrow> \<exists>i. i \<notin> res_id ` tbl (db w) \<and> tbl (db w1) = insert (?r\<lparr>res_id := i, res_title := c_str (ri_title q), res_content := c_str (ri_content q)\<rparr>) (tbl (db w))"
    using dao_create_contract [OF p(1,2) _ d] assms(2) by (auto split: if_splits)
  have fr: "dao_frame w w1" using dao_create_frame [OF p(1), of E ?r] d by simp
  show ?thesis
  proof (cases "dn")
    case False
    then have "j = error_json (resource_msg w1)" "w' = w1"
      using assms(3) d by (auto simp: create_resource_def)
    with False dc inv_dao [OF assms(1) fr] show ?thesis by simp
  next
    case True
    then obtain i where i: "i \<notin> res_id ` tbl (db w)" "tbl (db w1) = insert (?r\<lparr>res_id := i, res_title := c_str (ri_title q), res_content := c_str (ri_content q)\<rparr>) (tbl (db w))"
      using dc by blast
    obtain b w2 where v: "run_state (cache_invalidate_resources E (ri_user_id q)) w1 = (b, w2)"
      by (cases "run_state (cache_invalidate_resources E (ri_user_id q)) w1")
    have j: "j = status_json ''created''" "w' = w2"
      using assms(3) d v True by (auto simp: create_resource_def)
    have r1: "redis_ready (redis w1)" using p(3) fr by (simp add: dao_frame_def)
    note c2 = cache_invalidate_resources_contract [OF r1 v]
    have "coherent E (tbl (db w1)) (entries (redis_srv w2))" if av: "rc_available (redis w2)"
    proof (rule coherent_change [where u = "ri_user_id q" and i = i])
      show "coherent E (tbl (db w)) (entries (redis_srv w))"
        using assms(1) c2 av fr by (auto simp: service_inv_def shrinks_def dao_frame_def)
      show "entries (redis_srv w2) \<subseteq>\<^sub>m entries (redis_srv w)"
        using c2 fr by (simp add: shrinks_def dao_frame_def)
      show "differ_at (ri_user_id q) i (tbl (db w)) (tbl (db w1))"
        using i(2) by (auto simp: differ_at_def owned_def)
      show "entries (redis_srv w2) (resource_key (ri_user_id q) i) = None \<or>
          (\<forall>y \<in> tbl (db w). \<not> owned (ri_user_id q) i y)"
        using i(1) by (auto simp: owned_def image_iff)
      show "entries (redis_srv w2) (resources_key (ri_user_id q)) = None"
        by (rule invalidated_resources [OF r1 v av])
    qed
    moreover have "db w2 = db w1" "pg_pool w2 = pg_pool w1" using c2 by (auto simp: shrinks_def redis_frame_def)
    ultimately have "inv w2" using c2 dc(1) fr p(1) by (simp add: service_inv_def dao_frame_def)
    with j i \<open>db w2 = db w1\<close> show ?thesis by auto
  qed
qed

lemma update_resource_contract:
  assumes "inv w" "int32 (ri_user_id q)" "int32 (ri_id q)"
    "run_state (update_resource E q) w = (j, w')"
  shows "inv w' \<and> (if contains j ''error'' then tbl (db w') = tbl (db w)
    else (\<exists>y \<in> tbl (db w). owned (ri_user_id q) (ri_id q) y) \<and>
      tbl (db w') = (\<lambda>y. if owned (ri_user_id q) (ri_id q) y
        then y\<lparr>res_title := c_str (ri_title q), res_content := c_str (ri_content q)\<rparr> else y) ` tbl (db w))"
proof -
  let ?r = "\<lparr>res_id = ri_id q, res_user_id = ri_user_id q, res_title = ri_title q,
    res_content = ri_content q, res_is_file = False\<rparr>"
  let ?T' = "(\<lambda>y. if owned (ri_user_id q) (ri_id q) y
        then y\<lparr>res_title := c_str (ri_title q), res_content := c_str (ri_content q)\<rparr> else y) ` tbl (db w)"
  obtain dn w1 where d: "run_state (dao_update_resource E ?r) w = (dn, w1)"
    by (cases "run_state (dao_update_resource E ?r) w")
  have p: "pool_ready (pg_pool w)" "ok (db w)" using assms(1) by (auto simp: service_inv_def)
  have dc: "ok (db w1)" "\<not> dn \<Longrightarrow> tbl (db w1) = tbl (db w)"
    "dn \<Longrightarrow> (\<exists>y \<in> tbl (db w). owned (ri_user_id q) (ri_id q) y) \<and> tbl (db w1) = ?T'"
    using dao_update_contract [OF p(1,2) _ _ d] assms(2,3) by (auto split: if_splits)
  have fr: "dao_frame w w1" using dao_update_frame [OF p(1), of E ?r] d by simp
  show ?thesis
  proof (cases "dn")
    case False
    then have "j = error_json (resource_msg w1)" "w' = w1"
      using assms(4) d by (auto simp: update_resource_def)
    with False dc inv_dao [OF assms(1) fr] show ?thesis by simp
  next
    case True
    obtain a w2 where v1: "run_state (cache_invalidate_resource E (ri_user_id q) (ri_id q)) w1 = (a, w2)"
      by (cases "run_state (cache_invalidate_resource E (ri_user_id q) (ri_id q)) w1")
    obtain b w3 where v2: "run_state (cache_invalidate_resources E (ri_user_id q)) w2 = (b, w3)"
      by (cases "run_state (cache_invalidate_resources E (ri_user_id q)) w2")
    have j: "j = status_json ''updated''" "w' = w3"
      using assms(4) d v1 v2 True by (auto simp: update_resource_def)
    have "differ_at (ri_user_id q) (ri_id q) (tbl (db w)) (tbl (db w1))"
      using dc(3) [OF True] by (auto simp: differ_at_def owned_def image_iff split: if_splits)
    then have "inv w3 \<and> db w3 = db w1"
      by (intro invalidate_both [OF assms(1) _ _ _ dc(1) _ v1 v2]) (use fr p(1) in \<open>auto simp: dao_frame_def\<close>)
    with j dc(3) [OF True] show ?thesis by simp
  qed
qed

lemma delete_row_contract:
  assumes "inv w" "int32 u" "int32 i" "run_state (delete_row E u i) w = (j, w')"
  shows "inv w' \<and> objects w' = objects w \<and> (if contains j ''error'' then tbl (db w') = tbl (db w)
    else (\<exists>y \<in> tbl (db w). owned u i y) \<and> tbl (db w') = {y \<in> tbl (db w). \<not> owned u i y})"
proof -
  obtain dn w1 where d: "run_state (dao_delete_resource E u i) w = (dn, w1)"
    by (cases "run_state (dao_delete_resource E u i) w")
  have p: "pool_ready (pg_pool w)" "ok (db w)" using assms(1) by (auto simp: service_inv_def)
  note dc0 = dao_delete_contract [OF p assms(2,3) d]
  have dc: "ok (db w1)" "\<not> dn \<Longrightarrow> tbl (db w1) = tbl (db w)"
    "dn \<Longrightarrow> (\<exists>y \<in> tbl (db w). owned u i y) \<and> tbl (db w1) = {y \<in> tbl (db w). \<not> owned u i y}"
    using dc0 by (auto split: if_splits)
  have fr: "dao_frame w w1" using dao_delete_frame [OF p(1), of E u i] d by simp
  show ?thesis
  proof (cases "dn")
    case False
    then have "j = error_json (resource_msg w1)" "w' = w1"
      using assms(4) d by (auto simp: delete_row_def)
    with False dc inv_dao [OF assms(1) fr] fr show ?thesis by (simp add: dao_frame_def)
  next
    case True
    obtain a w2 where v1: "run_state (cache_invalidate_resource E u i) w1 = (a, w2)"
      by (cases "run_state (cache_invalidate_resource E u i) w1")
    obtain b w3 where v2: "run_state (cache_invalidate_resources E u) w2 = (b, w3)"
      by (cases "run_state (cache_invalidate_resources E u) w2")
    have j: "j = status_json ''deleted''" "w' = w3"
      using assms(4) d v1 v2 True by (auto simp: delete_row_def)
    have "differ_at u i (tbl (db w)) (tbl (db w1))"
      using dc(3) [OF True] by (auto simp: differ_at_def)
    then have "inv w3 \<and> db w3 = db w1"
      by (intro invalidate_both [OF assms(1) _ _ _ dc(1) _ v1 v2]) (use fr p(1) in \<open>auto simp: dao_frame_def\<close>)
    moreover have "objects w3 = objects w"
    proof -
      have r1: "redis_ready (redis w1)" using assms(1) fr by (simp add: dao_frame_def service_inv_def)
      note c1 = cache_invalidate_resource_contract [OF r1 v1]
      with cache_invalidate_resources_contract [OF _ v2] fr show ?thesis
        by (simp add: shrinks_def redis_frame_def dao_frame_def)
    qed
    ultimately show ?thesis using j dc(3) [OF True] by simp
  qed
qed

end

lemma inv_objects: "service_inv E tbl ok entries (w\<lparr>objects := ob\<rparr>) = service_inv E tbl ok entries w"
  by (simp add: service_inv_def)

context resource_store_reliable
begin

text \<open>
  Deleting: either an error and an unchanged table, or the row is gone; a file's object was removed
  first, and the row of a file whose object could not be removed is kept.
\<close>

lemma delete_resource_contract:
  assumes "inv w" "int32 u" "int32 i" "run_state (delete_resource E u i) w = (j, w')"
  shows "inv w' \<and>
    (if contains j ''error'' then tbl (db w') = tbl (db w)
     else \<exists>y \<in> tbl (db w). owned u i y \<and> tbl (db w') = tbl (db w) - {y} \<and>
       (if res_is_file y
        then object_key_of E (res_content y) \<noteq> '''' \<and>
          remove_request E (res_content y) (objects w) = (Inr (Inr ()), objects w')
        else objects w' = objects w))"
proof -
  obtain x w1 where d: "run_state (dao_get_resource E u i) w = (x, w1)"
    by (cases "run_state (dao_get_resource E u i) w")
  have p: "pool_ready (pg_pool w)" "ok (db w)" using assms(1) by (auto simp: service_inv_def)
  note dc = dao_get_resource_contract [OF p assms(2,3) d]
  have fr: "dao_frame w w1" using dao_get_resource_frame [OF p(1), of E u i] d by simp
  have i1: "inv w1" by (rule inv_dao [OF assms(1) fr]) (use dc in auto)
  have gone: "{y \<in> tbl (db w). \<not> owned u i y} = tbl (db w) - {y}" if "y \<in> tbl (db w)" "owned u i y" for y
    using owned_unique [OF p(2) that] by blast
  show ?thesis
  proof (cases x)
    case None
    then have "j = error_json (resource_msg w1)" "w' = w1"
      using assms(4) d by (auto simp: delete_resource_def)
    with i1 dc show ?thesis by simp
  next
    case (Some r)
    then obtain y where y: "y \<in> tbl (db w)" "owned u i y" "r = y\<lparr>res_user_id := 0\<rparr>" using dc by auto
    show ?thesis
    proof (cases "res_is_file y")
      case False
      then have "run_state (delete_row E u i) w1 = (j, w')"
        using assms(4) d Some y(3) by (simp add: delete_resource_def)
      from delete_row_contract [OF i1 assms(2,3) this] dc fr y gone [OF y(1,2)] False show ?thesis
        by (auto simp: dao_frame_def split: if_splits)
    next
      case True
      let ?url = "res_content y"
      obtain l e' where f: "run_state (delete_file E ?url ''failed to delete file'') w1 =
         ((object_key_of E ?url \<noteq> '''' \<and> fst (remove_request E ?url (objects w1)) = Inr (Inr ()), e'),
          w1\<lparr>objects := (if object_key_of E ?url = '''' then objects w1 else snd (remove_request E ?url (objects w1))),
            log_calls := l\<rparr>)"
        using delete_file_run by blast
      define w2 where "w2 = w1\<lparr>objects := (if object_key_of E ?url = '''' then objects w1
        else snd (remove_request E ?url (objects w1))), log_calls := l\<rparr>"
      have i2: "inv w2" using i1 by (simp add: w2_def inv_objects)
      have o1: "objects w1 = objects w" using fr by (simp add: dao_frame_def)
      show ?thesis
      proof (cases "object_key_of E ?url \<noteq> '''' \<and> fst (remove_request E ?url (objects w1)) = Inr (Inr ())")
        case False
        then have "j = error_json e'" "w' = w2"
          using assms(4) d Some y(3) True f by (simp_all add: delete_resource_def w2_def)
        with i2 dc show ?thesis by (simp add: w2_def)
      next
        case ok: True
        then have r: "run_state (delete_row E u i) w2 = (j, w')"
          using assms(4) d Some y(3) True f by (simp add: delete_resource_def w2_def)
        have "remove_request E ?url (objects w) = (Inr (Inr ()), objects w2)"
          using ok o1 by (simp add: w2_def prod_eq_iff)
        with delete_row_contract [OF i2 assms(2,3) r] dc y gone [OF y(1,2)] True ok show ?thesis
          by (auto simp: w2_def split: if_splits)
      qed
    qed
  qed
qed

end

text \<open>A download answer that is not an error names the object of the URL.\<close>

lemma download_answer:
  assumes "\<not> contains (fst (run_state (create_download_url E url) w)) ''error''"
  shows "object_key_of E url \<noteq> '''' \<and>
    member (fst (run_state (create_download_url E url) w)) ''object_key'' = JString (object_key_of E url)"
proof (cases "object_key_of E url = ''''")
  case True
  with assms show ?thesis
    by (simp add: create_download_url_def object_key_of_def storage_error_def log_storage_error_def Let_def)
next
  case False
  define x where "x = get_storage_env_int (environ E) ''S3_DOWNLOAD_URL_EXPIRES'' ''MINIO_DOWNLOAD_URL_EXPIRES'' 300"
  obtain d w1 where d: "run_state (create_presigned_url E HTTP_GET (public_endpoint_of E) (bucket_of E) (object_key_of E url) x) w = (d, w1)"
    by (cases "run_state (create_presigned_url E HTTP_GET (public_endpoint_of E) (bucket_of E) (object_key_of E url) x) w")
  then show ?thesis
    using assms False
    by (cases d) (auto simp: create_download_url_def object_key_of_def [symmetric] storage_unavailable_def Let_def x_def [symmetric]
        split: if_splits)
qed

lemma download_same_but_log: "same_but_log w (snd (run_state (create_download_url E url) w))"
proof (cases "object_key_of E url = ''''")
  case True
  then show ?thesis
    by (simp add: create_download_url_def object_key_of_def storage_error_def log_storage_error_def Let_def)
next
  case False
  let ?m = "create_presigned_url E HTTP_GET (public_endpoint_of E) (bucket_of E) (object_key_of E url)
    (get_storage_env_int (environ E) ''S3_DOWNLOAD_URL_EXPIRES'' ''MINIO_DOWNLOAD_URL_EXPIRES'' 300)"
  obtain x w1 where m: "run_state ?m w = (x, w1)" by (cases "run_state ?m w")
  then have "same_but_log w w1" using presigned_same_but_log [of w E] by (metis snd_conv)
  with m False show ?thesis
    by (cases x) (auto simp: create_download_url_def object_key_of_def [symmetric] storage_unavailable_def Let_def
        intro: same_but_log_trans)
qed

section \<open>Operations in sequence\<close>

text \<open>The six operations, as requests of one user.\<close>

datatype resource_op =
    Op_create string string bool
  | Op_list
  | Op_get int
  | Op_download int
  | Op_update int string string
  | Op_delete int

fun run_op :: "('db, 'rd, 'ob) externals \<Rightarrow> int \<Rightarrow> resource_op \<Rightarrow> ('db, 'rd, 'ob, json) action" where
  "run_op E u (Op_create t x f) = create_resource E
     \<lparr>ri_id = 0, ri_user_id = u, ri_title = t, ri_content = x, ri_is_file = f\<rparr>"
| "run_op E u Op_list = get_resources E u"
| "run_op E u (Op_get i) = get_resource E u i"
| "run_op E u (Op_download i) = get_file_download_url E u i"
| "run_op E u (Op_update i t x) = update_resource E
     \<lparr>ri_id = i, ri_user_id = u, ri_title = t, ri_content = x, ri_is_file = False\<rparr>"
| "run_op E u (Op_delete i) = delete_resource E u i"

fun op_ok :: "int \<times> resource_op \<Rightarrow> bool" where
  "op_ok (u, Op_get i) = (int32 u \<and> int32 i)"
| "op_ok (u, Op_download i) = (int32 u \<and> int32 i)"
| "op_ok (u, Op_update i t x) = (int32 u \<and> int32 i)"
| "op_ok (u, Op_delete i) = (int32 u \<and> int32 i)"
| "op_ok (u, _) = int32 u"

definition run_ops :: "('db, 'rd, 'ob) externals \<Rightarrow> (int \<times> resource_op) list \<Rightarrow>
    ('db, 'rd, 'ob) world \<Rightarrow> ('db, 'rd, 'ob) world" where
  "run_ops E ops w = fold (\<lambda>(u, p) w. snd (run_state (run_op E u p) w)) ops w"

text \<open>The rows of the other users.\<close>

definition others :: "int \<Rightarrow> Resource set \<Rightarrow> Resource set" where
  "others u T = {y \<in> T. res_user_id y \<noteq> u}"

context resource_store
begin

lemma download_contract:
  assumes "inv w" "int32 u" "int32 i" "run_state (get_file_download_url E u i) w = (j, w')"
  shows "inv w' \<and> tbl (db w') = tbl (db w) \<and>
    (contains j ''error'' \<or> (\<exists>y \<in> tbl (db w). owned u i y \<and> res_is_file y \<and>
       (\<exists>w1. j = fst (run_state (create_download_url E (res_content y)) w1))))"
proof -
  obtain x w1 where d: "run_state (dao_get_resource E u i) w = (x, w1)"
    by (cases "run_state (dao_get_resource E u i) w")
  have p: "pool_ready (pg_pool w)" "ok (db w)" using assms(1) by (auto simp: service_inv_def)
  note dc = dao_get_resource_contract [OF p assms(2,3) d]
  have i1: "inv w1"
    by (rule inv_dao [OF assms(1)]) (use dao_get_resource_frame [OF p(1), of E u i] d dc in auto)
  show ?thesis
  proof (cases x)
    case None
    then have "j = error_json (resource_msg w1)" "w' = w1"
      using assms(4) d by (auto simp: get_file_download_url_def)
    with i1 dc show ?thesis by simp
  next
    case (Some r)
    then obtain y where y: "y \<in> tbl (db w)" "owned u i y" "r = y\<lparr>res_user_id := 0\<rparr>" using dc by auto
    show ?thesis
    proof (cases "res_is_file y")
      case False
      then have "j = error_json ''resource is not file''" "w' = w1"
        using assms(4) d Some y(3) by (simp_all add: get_file_download_url_def)
      with i1 dc show ?thesis by simp
    next
      case True
      then have r: "run_state (create_download_url E (res_content y)) w1 = (j, w')"
        using assms(4) d Some y(3) by (simp add: get_file_download_url_def)
      obtain l where "w' = w1\<lparr>log_calls := l\<rparr>"
        using download_same_but_log [of w1 E "res_content y"] r by (auto simp: same_but_log_def)
      moreover have "j = fst (run_state (create_download_url E (res_content y)) w1)" using r by simp
      ultimately show ?thesis using i1 dc y True by auto
    qed
  qed
qed

end

context resource_store_reliable
begin

lemma run_op_contract:
  assumes "inv w" "op_ok (u, p)"
  shows "inv (snd (run_state (run_op E u p) w)) \<and>
    others u (tbl (db (snd (run_state (run_op E u p) w)))) = others u (tbl (db w))"
proof -
  obtain j w' where r: "run_state (run_op E u p) w = (j, w')" by (cases "run_state (run_op E u p) w")
  show ?thesis
  proof (cases p)
    case (Op_create t x f)
    have "others u (insert y T) = others u T" if "res_user_id y = u" for y T
      using that by (auto simp: others_def)
    with Op_create assms r create_resource_contract [OF assms(1), of "\<lparr>ri_id = 0, ri_user_id = u, ri_title = t,
        ri_content = x, ri_is_file = f\<rparr>" j w'] show ?thesis
      by (auto split: if_splits)
  next
    case Op_list
    with assms r get_resources_contract [OF assms(1), of u j w'] show ?thesis by simp
  next
    case (Op_get i)
    with assms r get_resource_contract [OF assms(1), of u i j w'] show ?thesis by simp
  next
    case (Op_download i)
    with assms r download_contract [OF assms(1), of u i j w'] show ?thesis by simp
  next
    case (Op_update i t x)
    have "others u ((\<lambda>y. if owned u i y then y\<lparr>res_title := a, res_content := b\<rparr> else y) ` T) = others u T" for a b T
      by (auto simp: others_def owned_def image_iff split: if_splits)
    with Op_update assms r update_resource_contract [OF assms(1), of "\<lparr>ri_id = i, ri_user_id = u, ri_title = t,
        ri_content = x, ri_is_file = False\<rparr>" j w'] show ?thesis
      by (auto split: if_splits)
  next
    case (Op_delete i)
    have "others u (T - {y}) = others u T" if "owned u i y" for y T
      using that by (auto simp: others_def owned_def)
    with Op_delete assms r delete_resource_contract [OF assms(1), of u i j w'] show ?thesis
      by (auto split: if_splits)
  qed
qed

lemma run_ops_inv: "inv w \<Longrightarrow> list_all op_ok ops \<Longrightarrow> inv (run_ops E ops w)"
proof (induction ops arbitrary: w)
  case Nil
  then show ?case by (simp add: run_ops_def)
next
  case (Cons q ops)
  obtain u p where q: "q = (u, p)" by (cases q)
  from Cons.prems have "inv (snd (run_state (run_op E u p) w))"
    using run_op_contract [of w u p] by (simp add: q)
  with Cons.IH Cons.prems q show ?case by (simp add: run_ops_def)
qed

end

end
