(* ===== verification/User_Dao.thy ===== *)
theory User_Dao
  imports Dao_Util
begin

text \<open>
  \<^verbatim>\<open>src/src/dao/user_dao.h\<close> and \<^verbatim>\<open>user_dao.cpp\<close>: the two statements on the \<^verbatim>\<open>users\<close> table.
\<close>

section \<open>Definitions\<close>

record User =
  usr_id :: int
  usr_name :: string
  usr_email :: string
  usr_password :: string

definition sql_insert_user :: string where
  "sql_insert_user = ''INSERT INTO users (name, email, password) VALUES ($1, $2, $3)''"

definition sql_select_user :: string where
  "sql_select_user = ''SELECT id, name, email, password FROM users WHERE email=$1''"

definition set_user_dao_error :: "string \<Rightarrow> ('db, 'rd, 'ob, unit) action" where
  "set_user_dao_error message = do { set_user_msg message; log ERROR message }"

definition dao_create_user :: "('db, 'rd, 'ob) externals \<Rightarrow> User \<Rightarrow> ('db, 'rd, 'ob, bool) action" where
  "dao_create_user E user = do {
     set_user_msg '''';
     conn \<leftarrow> pg_lease;
     (case conn of
        None \<Rightarrow> do { set_user_dao_error ''DB connection failed.''; State_Monad.return False }
      | Some c \<Rightarrow> do {
          result \<leftarrow> PQexecParams E c sql_insert_user [usr_name user, usr_email user, usr_password user];
          ok \<leftarrow> command_ok E c result sql_insert_user set_user_msg;
          pg_release c;
          State_Monad.return ok
        })
   }"

definition row_to_user :: "string option list \<Rightarrow> User" where
  "row_to_user row =
     \<lparr>usr_id = atoi (PQgetvalue row 0), usr_name = nullable_value row 1,
      usr_email = nullable_value row 2, usr_password = nullable_value row 3\<rparr>"

definition dao_get_user_by_email :: "('db, 'rd, 'ob) externals \<Rightarrow> string \<Rightarrow>
    ('db, 'rd, 'ob, User option) action" where
  "dao_get_user_by_email E email = do {
     set_user_msg '''';
     conn \<leftarrow> pg_lease;
     (case conn of
        None \<Rightarrow> do { set_user_dao_error ''DB connection failed.''; State_Monad.return None }
      | Some c \<Rightarrow> do {
          log DEBUG (''SQL: '' @ sql_select_user);
          result \<leftarrow> PQexecParams E c sql_select_user [email];
          if \<not> tuples_ok result then do {
            select_failed E c sql_select_user set_user_msg;
            pg_release c;
            State_Monad.return None }
          else (case pg_rows (the result) of
              [] \<Rightarrow> do {
                set_user_dao_error ''User not found'';
                pg_release c;
                State_Monad.return None }
            | row # _ \<Rightarrow> do {
                pg_release c;
                State_Monad.return (Some (row_to_user row)) })
        })
   }"

section \<open>Behaviour\<close>

lemmas user_dao_steps = run_pg_lease command_ok_def select_failed_def set_user_dao_error_def
  lease_release split_def Let_def

text \<open>A user call changes the database, the user message and the log, and returns its connection.\<close>

definition user_frame :: "('db, 'rd, 'ob) world \<Rightarrow> ('db, 'rd, 'ob) world \<Rightarrow> bool" where
  "user_frame w w' = (pg_pool w' = pool_rotated (pg_pool w) \<and> redis_srv w' = redis_srv w \<and>
     objects w' = objects w \<and> redis w' = redis w \<and> resource_msg w' = resource_msg w \<and>
     clock_ms w' = clock_ms w)"

lemma dao_create_user_frame:
  "pool_ready (pg_pool w) \<Longrightarrow> user_frame w (snd (run_state (dao_create_user E u) w))"
  by (simp add: dao_create_user_def user_dao_steps user_frame_def split: option.splits if_splits)

lemma dao_get_user_frame:
  "pool_ready (pg_pool w) \<Longrightarrow> user_frame w (snd (run_state (dao_get_user_by_email E m) w))"
  by (simp add: dao_get_user_by_email_def user_dao_steps user_frame_def
      split: option.splits if_splits list.splits)

section \<open>What the statements do\<close>

definition user_row_of :: "User \<Rightarrow> string option list \<Rightarrow> bool" where
  "user_row_of u row = (row = [Some (to_string (usr_id u)), Some (usr_name u), Some (usr_email u), Some (usr_password u)])"

text \<open>
  What the code relies on from PostgreSQL for the \<^verbatim>\<open>users\<close> table: the identity column is a positive
  32-bit number, \<^verbatim>\<open>email\<close> is unique and no column is NULL; a statement does what its text says or is
  reported as failed and changes nothing.
\<close>

locale pg_users =
  fixes E :: "('db, 'rd, 'ob) externals" and users :: "'db \<Rightarrow> User set" and ok :: "'db \<Rightarrow> bool"
  assumes user_keys: "ok d \<Longrightarrow> inj_on usr_email (users d) \<and> (\<forall>u \<in> users d. int32 (usr_id u) \<and> 0 < usr_id u)"
    and users_ok: "ok d \<Longrightarrow> ok (snd (pg_exec E c sql ps d))"
    and insert_user: "ok d \<Longrightarrow> NUL \<notin> set n \<Longrightarrow> NUL \<notin> set e \<Longrightarrow> NUL \<notin> set p \<Longrightarrow>
      pg_exec E c sql_insert_user [n, e, p] d = (r, d') \<Longrightarrow>
      failed r \<and> users d' = users d \<or>
      commanded r 1 \<and> e \<notin> usr_email ` users d \<and>
        (\<exists>i. users d' = insert \<lparr>usr_id = i, usr_name = n, usr_email = e, usr_password = p\<rparr> (users d))"
    and select_user: "ok d \<Longrightarrow> NUL \<notin> set e \<Longrightarrow> pg_exec E c sql_select_user [e] d = (r, d') \<Longrightarrow>
      users d' = users d \<and> (failed r \<or>
        (\<exists>res us. r = Some res \<and> pg_status res = PGRES_TUPLES_OK \<and> list_all2 user_row_of us (pg_rows res) \<and>
           set us = {u \<in> users d. usr_email u = e}))"
begin

lemma create_user_contract:
  assumes "pool_ready (pg_pool w)" "ok (db w)" "NUL \<notin> set (usr_name q)" "NUL \<notin> set (usr_email q)"
    "NUL \<notin> set (usr_password q)" "run_state (dao_create_user E q) w = (good, w')"
  shows "ok (db w') \<and> (if good then usr_email q \<notin> usr_email ` users (db w) \<and>
      (\<exists>i. users (db w') = insert (q\<lparr>usr_id := i\<rparr>) (users (db w)))
    else users (db w') = users (db w))"
proof -
  have xw: "good = fst (run_state (dao_create_user E q) w)" "w' = snd (run_state (dao_create_user E q) w)"
    using assms(6) by auto
  let ?c = "hd (conn_list (pg_pool w))" and ?ps = "[usr_name q, usr_email q, usr_password q]"
  obtain r d where e: "pg_exec E ?c sql_insert_user ?ps (db w) = (r, d)"
    by (cases "pg_exec E ?c sql_insert_user ?ps (db w)")
  have cs: "map c_str ?ps = ?ps" using assms(3-5) by simp
  have d: "ok d" using users_ok [OF assms(2), of ?c sql_insert_user ?ps] e by simp
  note steps = dao_create_user_def run_pg_lease lease_release split_def Let_def
  from insert_user [OF assms(2-5) e] show ?thesis
  proof (elim disjE conjE exE)
    assume f: "failed r" "users d = users (db w)"
    with assms(1) e cs d show ?thesis
      unfolding xw by (cases r) (simp_all add: steps command_ok_def failed_def)
  next
    fix i
    assume s: "commanded r 1" "usr_email q \<notin> usr_email ` users (db w)" "users d = insert
      \<lparr>usr_id = i, usr_name = usr_name q, usr_email = usr_email q, usr_password = usr_password q\<rparr> (users (db w))"
    have "users d = insert (q\<lparr>usr_id := i\<rparr>) (users (db w))" using s(3) by (cases q) simp
    with assms(1) e cs d s(2) show ?thesis
      unfolding xw by (simp add: steps command_done [OF s(1)]) blast
  qed
qed

lemma get_user_contract:
  assumes "pool_ready (pg_pool w)" "ok (db w)" "NUL \<notin> set m" "run_state (dao_get_user_by_email E m) w = (x, w')"
  shows "ok (db w') \<and> users (db w') = users (db w) \<and>
    (case x of Some u \<Rightarrow> u \<in> users (db w) \<and> usr_email u = m
     | None \<Rightarrow> user_msg w' = ''User not found'' \<longrightarrow> m \<notin> usr_email ` users (db w))"
proof -
  have xw: "x = fst (run_state (dao_get_user_by_email E m) w)" "w' = snd (run_state (dao_get_user_by_email E m) w)"
    using assms(4) by auto
  let ?c = "hd (conn_list (pg_pool w))"
  obtain r d where e: "pg_exec E ?c sql_select_user [m] (db w) = (r, d)"
    by (cases "pg_exec E ?c sql_select_user [m] (db w)")
  have cs: "c_str m = m" using assms(3) by simp
  have d: "ok d" using users_ok [OF assms(2), of ?c sql_select_user "[m]"] e by simp
  note sel = select_user [OF assms(2,3) e]
  note steps = dao_get_user_by_email_def user_dao_steps tuples_ok_def
  show ?thesis
  proof (cases "failed r")
    case True
    with sel assms(1) e cs d show ?thesis
      unfolding xw by (cases r) (simp_all add: steps failed_def)
  next
    case False
    with sel obtain res us where s: "r = Some res" "pg_status res = PGRES_TUPLES_OK"
        "list_all2 user_row_of us (pg_rows res)" "set us = {u \<in> users (db w). usr_email u = m}"
      by auto
    show ?thesis
    proof (cases us)
      case Nil
      then have "m \<notin> usr_email ` users (db w)" using s(4) by auto
      with Nil s sel assms(1) e cs d show ?thesis
        unfolding xw by (simp add: steps)
    next
      case (Cons u us')
      then obtain row rows where rr: "pg_rows res = row # rows" "user_row_of u row"
        using s(3) by (auto simp: list_all2_Cons1)
      have u: "u \<in> users (db w)" "usr_email u = m" using s(4) Cons by auto
      then have "row_to_user row = u"
        using rr(2) user_keys [OF assms(2)]
        by (cases u) (auto simp: user_row_of_def row_to_user_def PQgetvalue_def nullable_value_def)
      with u rr s sel assms(1) e cs d show ?thesis
        unfolding xw by (simp add: steps)
    qed
  qed
qed

end

end
