(* ===== verification/Auth_Utils.thy ===== *)
theory Auth_Utils
  imports Prelude
begin

text \<open>
  \<^verbatim>\<open>src/src/utils/auth_utils.h\<close>: lowercase hexadecimal of a digest and of a random token. The
  digest function and the random source of OpenSSL are arguments.
\<close>

section \<open>Definitions\<close>

definition hex_digit :: "nat \<Rightarrow> char" where
  "hex_digit d = (if d < 10 then char_of (48 + d) else char_of (87 + d))"

text \<open>\<^verbatim>\<open>std::hex << std::setw(2) << std::setfill('0') << (int)byte\<close>.\<close>

definition hex_byte :: "char \<Rightarrow> string" where
  "hex_byte b = [hex_digit (code_of b div 16), hex_digit (code_of b mod 16)]"

fun hex_bytes :: "char list \<Rightarrow> string" where
  "hex_bytes [] = []"
| "hex_bytes (b # bs) = hex_byte b @ hex_bytes bs"

definition sha256 :: "(string \<Rightarrow> char list) \<Rightarrow> string \<Rightarrow> string" where
  "sha256 SHA256 input = hex_bytes (SHA256 input)"

text \<open>\<^verbatim>\<open>RAND_bytes\<close> yields 32 bytes or fails.\<close>

definition generate_token :: "char list option \<Rightarrow> string" where
  "generate_token rand = (case rand of None \<Rightarrow> '''' | Some bytes \<Rightarrow> hex_bytes bytes)"

definition is_hex :: "char \<Rightarrow> bool" where
  "is_hex c = (isdigit c \<or> (97 \<le> code_of c \<and> code_of c \<le> 102))"

section \<open>Properties\<close>

lemma code_of_hex: "d < 16 \<Longrightarrow> code_of (hex_digit d) = (if d < 10 then 48 + d else 87 + d)"
  by (simp add: hex_digit_def)

lemma hex_digit_inj:
  assumes "d < 16" "e < 16" "hex_digit d = hex_digit e"
  shows "d = e"
proof -
  have "(if d < 10 then 48 + d else 87 + d) = (if e < 10 then 48 + e else 87 + e)"
    using code_of_hex [OF assms(1)] code_of_hex [OF assms(2)] assms(3) by simp
  with assms(1,2) show ?thesis by (simp split: if_splits)
qed

lemma is_hex_digit: "d < 16 \<Longrightarrow> is_hex (hex_digit d)"
  using code_of_hex [of d] by (auto simp: is_hex_def isdigit_def)

lemma code_of_less: "code_of (c :: char) < 256"
  by (rule nat_of_char_less_256)

lemma code_of_div: "code_of (c :: char) div 16 < 16" "code_of (c :: char) mod 16 < 16"
  using less_mult_imp_div_less [of "code_of c" 16 16] code_of_less [of c] by simp_all

lemma hex_byte_inj:
  assumes "hex_byte a = hex_byte b"
  shows "a = b"
proof -
  have "code_of a div 16 = code_of b div 16" "code_of a mod 16 = code_of b mod 16"
    using assms by (auto simp only: hex_byte_def list.inject intro!: hex_digit_inj code_of_div)
  then have "code_of a = code_of b" by (metis div_mult_mod_eq)
  then show "a = b" by simp
qed

lemma length_hex_bytes [simp]: "length (hex_bytes bs) = 2 * length bs"
  by (induction bs) (auto simp: hex_byte_def)

lemma hex_bytes_inj [simp]: "hex_bytes as = hex_bytes bs \<longleftrightarrow> as = bs"
proof (induction as arbitrary: bs)
  case Nil
  show ?case by (cases bs) (simp_all add: hex_byte_def)
next
  case (Cons a as)
  have "length (hex_byte a) = length (hex_byte b)" for b
    by (simp add: hex_byte_def)
  with Cons hex_byte_inj show ?case
    by (cases bs) (simp_all add: append_eq_append_conv, simp add: hex_byte_def, blast)
qed

lemma hex_bytes_chars: "\<forall>c \<in> set (hex_bytes bs). is_hex c"
proof (induction bs)
  case (Cons b bs)
  then show ?case
    using is_hex_digit [OF code_of_div(1), of b] is_hex_digit [OF code_of_div(2), of b]
    by (simp add: hex_byte_def)
qed simp

end
