(* ===== verification/Jwt_Utils.thy ===== *)
theory Jwt_Utils
  imports World
begin

text \<open>
  \<^verbatim>\<open>src/src/utils/jwt_utils.h\<close> and \<^verbatim>\<open>jwt_utils.cpp\<close>. Signing, decoding, verifying and the subject
  claim are functions of jwt-cpp and come with the externals.
\<close>

section \<open>Definitions\<close>

definition get_secret :: "('db, 'rd, 'ob) externals \<Rightarrow> string" where
  "get_secret E = get_env_or_default (environ E) ''JWT_SECRET'' ''''"

definition get_issuer :: "('db, 'rd, 'ob) externals \<Rightarrow> string" where
  "get_issuer E = get_env_or_default (environ E) ''JWT_ISSUER'' ''webserver''"

definition get_expires_seconds :: "('db, 'rd, 'ob) externals \<Rightarrow> int" where
  "get_expires_seconds E = get_env_int_or_default (environ E) ''JWT_EXPIRES_SECONDS'' 3600"

definition jwt_claims_for :: "('db, 'rd, 'ob) externals \<Rightarrow> int \<Rightarrow> int \<Rightarrow> jwt_claims" where
  "jwt_claims_for E user_id now =
     \<lparr>jwt_iss = get_issuer E, jwt_sub = to_string user_id, jwt_iat = now,
      jwt_exp = now + 1000 * get_expires_seconds E\<rparr>"

definition create_jwt :: "('db, 'rd, 'ob) externals \<Rightarrow> int \<Rightarrow> ('db, 'rd, 'ob, exn + string) action" where
  "create_jwt E user_id =
     (if get_secret E = '''' \<or> get_expires_seconds E \<le> 0 then do {
        log ERROR ''JWT creation failed: invalid JWT configuration'';
        State_Monad.return (Inr '''') }
      else do {
        w \<leftarrow> State_Monad.get;
        State_Monad.return (jwt_sign E (jwt_claims_for E user_id (clock_ms w)) (get_secret E))
      })"

text \<open>The two \<^verbatim>\<open>catch\<close> clauses.\<close>

definition jwt_failure :: "exn \<Rightarrow> ('db, 'rd, 'ob, int option) action" where
  "jwt_failure e = do {
     log ERROR (case exn_what e of
        Some m \<Rightarrow> ''JWT verification failed: '' @ m
      | None \<Rightarrow> ''JWT verification failed'');
     State_Monad.return None }"

definition subject_user :: "string \<Rightarrow> int option" where
  "subject_user subject =
     (let s = c_str subject; (user_id, end_off) = strtol s
      in if end_off = 0 \<or> end_off < length s \<or> user_id \<le> 0 then None else Some (to_int32 user_id))"

definition verify_jwt_and_get_user_id :: "('db, 'rd, 'ob) externals \<Rightarrow> string \<Rightarrow>
    ('db, 'rd, 'ob, int option) action" where
  "verify_jwt_and_get_user_id E tok =
     (if get_secret E = '''' \<or> tok = '''' then do {
        log ERROR (if get_secret E = '''' then ''JWT verification failed: missing JWT secret''
                   else ''JWT verification failed: empty token'');
        State_Monad.return None }
      else case jwt_decode E tok of
        Inl e \<Rightarrow> jwt_failure e
      | Inr decoded \<Rightarrow> do {
          w \<leftarrow> State_Monad.get;
          (case jwt_verify E (get_secret E) (get_issuer E) (clock_ms w) decoded of
             Inl e \<Rightarrow> jwt_failure e
           | Inr _ \<Rightarrow>
               (case jwt_subject E decoded of
                  Inl e \<Rightarrow> jwt_failure e
                | Inr subject \<Rightarrow>
                    (case subject_user subject of
                       None \<Rightarrow> do {
                         log ERROR ''JWT verification failed: invalid subject'';
                         State_Monad.return None }
                     | Some uid \<Rightarrow> State_Monad.return (Some uid))))
        })"

section \<open>What the server relies on from the token library\<close>

text \<open>
  A token signed with a secret decodes and carries its subject. It is accepted with that secret and
  its issuer from the moment it was issued until its last second (the library stores whole seconds),
  and never with another issuer or after its expiry. \<^verbatim>\<open>hs256\<close> signing with a given secret does not
  fail and no token is empty.
\<close>

locale jwt_library =
  fixes sign :: "jwt_claims \<Rightarrow> string \<Rightarrow> exn + string" and decode :: "string \<Rightarrow> exn + string"
    and verify :: "string \<Rightarrow> string \<Rightarrow> int \<Rightarrow> string \<Rightarrow> exn + unit" and subject :: "string \<Rightarrow> exn + string"
  assumes sign_ok: "\<exists>t. sign c s = Inr t \<and> t \<noteq> ''''"
    and decode_signed: "sign c s = Inr t \<Longrightarrow> \<exists>d. decode t = Inr d \<and> subject d = Inr (jwt_sub c)"
    and verify_signed: "sign c s = Inr t \<Longrightarrow> decode t = Inr d \<Longrightarrow> jwt_iat c \<le> now \<Longrightarrow> now + 1000 \<le> jwt_exp c \<Longrightarrow>
      verify s (jwt_iss c) now d = Inr ()"
    and verify_sound: "sign c s = Inr t \<Longrightarrow> decode t = Inr d \<Longrightarrow> verify s' i now d = Inr () \<Longrightarrow>
      i = jwt_iss c \<and> now \<le> jwt_exp c"

section \<open>Lemmas\<close>

lemma subject_user_to_string:
  "0 < i \<Longrightarrow> int32 i \<Longrightarrow> subject_user (to_string i) = Some i"
  using int32_long [of i] by (simp add: subject_user_def strtol_to_string Let_def)

text \<open>Verification only logs.\<close>

lemma verify_same_but_log: "same_but_log w (snd (run_state (verify_jwt_and_get_user_id E t) w))"
  by (simp add: verify_jwt_and_get_user_id_def jwt_failure_def split: sum.splits option.splits)

lemma verified_user_int32:
  "fst (run_state (verify_jwt_and_get_user_id E t) w) = Some u \<Longrightarrow> int32 u"
  by (auto simp: verify_jwt_and_get_user_id_def jwt_failure_def subject_user_def Let_def
      split: sum.splits option.splits if_splits prod.splits)

text \<open>A token that \<^const>\<open>create_jwt\<close> issued, seen by the verifier at another time.\<close>

lemma verify_decoded:
  assumes "get_secret E \<noteq> ''''" "t \<noteq> ''''" "jwt_decode E t = Inr d" "jwt_subject E d = Inr (to_string u)" "0 < u" "int32 u"
  shows "fst (run_state (verify_jwt_and_get_user_id E t) w) =
    (case jwt_verify E (get_secret E) (get_issuer E) (clock_ms w) d of Inl _ \<Rightarrow> None | Inr _ \<Rightarrow> Some u)"
  using assms
  by (simp add: verify_jwt_and_get_user_id_def jwt_failure_def subject_user_to_string split: sum.splits)

lemma token_life:
  assumes "jwt_library (jwt_sign E) (jwt_decode E) (jwt_verify E) (jwt_subject E)"
    "get_secret E \<noteq> ''''" "0 < get_expires_seconds E" "0 < u" "int32 u"
  shows "\<exists>t. run_state (create_jwt E u) w = (Inr t, w) \<and> t \<noteq> '''' \<and>
    (\<forall>w'. clock_ms w \<le> clock_ms w' \<longrightarrow> clock_ms w' + 1000 \<le> clock_ms w + 1000 * get_expires_seconds E \<longrightarrow>
       fst (run_state (verify_jwt_and_get_user_id E t) w') = Some u) \<and>
    (\<forall>w'. clock_ms w + 1000 * get_expires_seconds E < clock_ms w' \<longrightarrow>
       fst (run_state (verify_jwt_and_get_user_id E t) w') = None)"
proof -
  let ?c = "jwt_claims_for E u (clock_ms w)"
  obtain t where t: "jwt_sign E ?c (get_secret E) = Inr t" "t \<noteq> ''''"
    using jwt_library.sign_ok [OF assms(1), of ?c "get_secret E"] by blast
  obtain d where d: "jwt_decode E t = Inr d" "jwt_subject E d = Inr (to_string u)"
    using jwt_library.decode_signed [OF assms(1) t(1)] by (auto simp: jwt_claims_for_def)
  note v = verify_decoded [OF assms(2) t(2) d assms(4,5)]
  have "fst (run_state (verify_jwt_and_get_user_id E t) w') = Some u"
    if "clock_ms w \<le> clock_ms w'" "clock_ms w' + 1000 \<le> clock_ms w + 1000 * get_expires_seconds E" for w'
    using jwt_library.verify_signed [OF assms(1) t(1) d(1), of "clock_ms w'"] that v [of w']
    by (simp add: jwt_claims_for_def)
  moreover have "fst (run_state (verify_jwt_and_get_user_id E t) w') = None"
    if "clock_ms w + 1000 * get_expires_seconds E < clock_ms w'" for w'
    using jwt_library.verify_sound [OF assms(1) t(1) d(1), of "get_secret E" "get_issuer E" "clock_ms w'"] that v [of w']
    by (auto simp: jwt_claims_for_def split: sum.splits)
  moreover have "run_state (create_jwt E u) w = (Inr t, w)"
    using t assms(2,3) by (simp add: create_jwt_def)
  ultimately show ?thesis using t(2) by blast
qed

end
