(* ===== verification/User_Service.thy ===== *)
theory User_Service
  imports User_Dao Auth_Utils Jwt_Utils
begin

text \<open>
  \<^verbatim>\<open>src/src/service/user_service.h\<close> and \<^verbatim>\<open>user_service.cpp\<close>: registration, login and the
  resolution of a bearer token. The answers are JSON values; an answer with an \<^verbatim>\<open>error\<close> member is a
  failure.
\<close>

section \<open>Definitions\<close>

record UserInfo =
  ui_id :: int
  ui_name :: string
  ui_email :: string
  ui_password :: string

text \<open>The two overloads of \<^verbatim>\<open>user_service_error\<close>: with and without a message.\<close>

definition user_service_error :: "string \<Rightarrow> exn \<Rightarrow> ('db, 'rd, 'ob, json) action" where
  "user_service_error act e = do {
     let m = (case exn_what e of
        Some what \<Rightarrow> ''User service error while '' @ act @ '': '' @ what
      | None \<Rightarrow> ''User service error while '' @ act @ ''.'');
     set_user_msg m;
     log ERROR m;
     State_Monad.return (error_json ''user service unavailable'')
   }"

text \<open>The id of the new \<^verbatim>\<open>User\<close> is not assigned and not read by the statement.\<close>

definition create_user :: "('db, 'rd, 'ob) externals \<Rightarrow> UserInfo \<Rightarrow> ('db, 'rd, 'ob, json) action" where
  "create_user E info = do {
     ok \<leftarrow> dao_create_user E \<lparr>usr_id = 0, usr_name = ui_name info, usr_email = ui_email info,
             usr_password = sha256 (SHA256 E) (ui_password info)\<rparr>;
     w \<leftarrow> State_Monad.get;
     State_Monad.return (if \<not> ok then error_json (user_msg w) else status_json ''created'')
   }"

text \<open>The error branch of \<^verbatim>\<open>login\<close>: the message is stored, logged and answered.\<close>

definition login_failed :: "string \<Rightarrow> ('db, 'rd, 'ob, json) action" where
  "login_failed m = do {
     set_user_msg m;
     log ERROR m;
     State_Monad.return (error_json m)
   }"

definition login :: "('db, 'rd, 'ob) externals \<Rightarrow> UserInfo \<Rightarrow> ('db, 'rd, 'ob, json) action" where
  "login E info = do {
     user_opt \<leftarrow> dao_get_user_by_email E (ui_email info);
     (case user_opt of
        None \<Rightarrow> do {
          w \<leftarrow> State_Monad.get;
          State_Monad.return (error_json (user_msg w)) }
      | Some user \<Rightarrow>
          if usr_password user \<noteq> sha256 (SHA256 E) (ui_password info) then login_failed ''wrong password''
          else do {
            created \<leftarrow> create_jwt E (usr_id user);
            (case created of
               Inl e \<Rightarrow> user_service_error ''logging in'' e
             | Inr tok \<Rightarrow>
                 if tok = '''' then login_failed ''token generation failed''
                 else State_Monad.return (JObject
                   [(''token'', JString tok), (''user_id'', JInt (usr_id user)),
                    (''name'', JString (usr_name user))]))
          })
   }"

text \<open>\<^const>\<open>verify_jwt_and_get_user_id\<close> catches everything, so the guard around it never fires.\<close>

definition get_user_id_from_token :: "('db, 'rd, 'ob) externals \<Rightarrow> string \<Rightarrow>
    ('db, 'rd, 'ob, int option) action" where
  "get_user_id_from_token E tok = verify_jwt_and_get_user_id E tok"

definition logout :: "string \<Rightarrow> ('db, 'rd, 'ob, json) action" where
  "logout tok = State_Monad.return (status_json ''logout success'')"

section \<open>Lemmas\<close>

lemma token_same_but_log: "same_but_log w (snd (run_state (get_user_id_from_token E t) w))"
  by (simp add: get_user_id_from_token_def verify_same_but_log)

lemma token_user_int32: "fst (run_state (get_user_id_from_token E t) w) = Some u \<Longrightarrow> int32 u"
  unfolding get_user_id_from_token_def by (rule verified_user_int32)

lemma create_jwt_same_but_log: "same_but_log w (snd (run_state (create_jwt E u) w))"
  by (simp add: create_jwt_def)

section \<open>Accounts\<close>

text \<open>The answer of a successful login.\<close>

definition login_answer :: "string \<Rightarrow> User \<Rightarrow> json" where
  "login_answer tok u = JObject [(''token'', JString tok), (''user_id'', JInt (usr_id u)), (''name'', JString (usr_name u))]"

text \<open>A token issued for a user at a time: it resolves to that user until its last second.\<close>

definition token_for :: "('db, 'rd, 'ob) externals \<Rightarrow> int \<Rightarrow> int \<Rightarrow> string \<Rightarrow> bool" where
  "token_for E now u tok = (\<forall>w :: ('db, 'rd, 'ob) world. now \<le> clock_ms w \<longrightarrow>
     clock_ms w + 1000 \<le> now + 1000 * get_expires_seconds E \<longrightarrow>
     fst (run_state (get_user_id_from_token E tok) w) = Some u)"

lemma run_login_failed: "run_state (login_failed m) w = (error_json m, w\<lparr>user_msg := m, log_calls := log_calls w @ [(ERROR, m)]\<rparr>)"
  by (simp add: login_failed_def)

context pg_users
begin

lemma login_contract:
  assumes "pool_ready (pg_pool w)" "ok (db w)" "NUL \<notin> set (ui_email info)"
    "jwt_library (jwt_sign E) (jwt_decode E) (jwt_verify E) (jwt_subject E)"
    "get_secret E \<noteq> ''''" "0 < get_expires_seconds E" "run_state (login E info) w = (j, w')"
  shows "users (db w') = users (db w) \<and> ok (db w') \<and> pool_ready (pg_pool w') \<and>
    (contains j ''error'' \<or> (\<exists>u \<in> users (db w). \<exists>t. usr_email u = ui_email info \<and>
       usr_password u = sha256 (SHA256 E) (ui_password info) \<and> j = login_answer t u \<and>
       token_for E (clock_ms w) (usr_id u) t))"
proof -
  obtain x w1 where d: "run_state (dao_get_user_by_email E (ui_email info)) w = (x, w1)"
    by (cases "run_state (dao_get_user_by_email E (ui_email info)) w")
  note c = get_user_contract [OF assms(1-3) d]
  have f: "user_frame w w1" using dao_get_user_frame [OF assms(1), of E "ui_email info"] d by simp
  have p: "pool_ready (pg_pool w1)" "clock_ms w1 = clock_ms w"
    using f assms(1) by (simp_all add: user_frame_def)
  show ?thesis
  proof (cases x)
    case None
    then have "j = error_json (user_msg w1)" "w' = w1" using assms(7) d by (auto simp: login_def)
    with c p show ?thesis by simp
  next
    case (Some u)
    show ?thesis
    proof (cases "usr_password u = sha256 (SHA256 E) (ui_password info)")
      case False
      then have "j = error_json ''wrong password''" "db w' = db w1" "pg_pool w' = pg_pool w1"
        using assms(7) d Some by (auto simp: login_def run_login_failed)
      with c p show ?thesis by simp
    next
      case True
      have u: "u \<in> users (db w)" "usr_email u = ui_email info" "0 < usr_id u" "int32 (usr_id u)"
        using c Some user_keys [OF assms(2)] by auto
      obtain t where t: "run_state (create_jwt E (usr_id u)) w1 = (Inr t, w1)" "t \<noteq> ''''"
          "token_for E (clock_ms w) (usr_id u) t"
        using token_life [OF assms(4-6) u(3,4), of w1] p(2)
        unfolding token_for_def get_user_id_from_token_def by auto
      have "j = login_answer t u" "w' = w1"
        using assms(7) d Some True t by (auto simp: login_def login_answer_def)
      with u True t c p show ?thesis by auto
    qed
  qed
qed

lemma register_contract:
  assumes "pool_ready (pg_pool w)" "ok (db w)" "NUL \<notin> set (ui_name info)" "NUL \<notin> set (ui_email info)"
    "run_state (create_user E info) w = (j, w')"
  shows "ok (db w') \<and> pool_ready (pg_pool w') \<and> clock_ms w' = clock_ms w \<and>
    (if contains j ''error'' then users (db w') = users (db w)
     else ui_email info \<notin> usr_email ` users (db w) \<and>
       (\<exists>i. users (db w') = insert \<lparr>usr_id = i, usr_name = ui_name info, usr_email = ui_email info,
          usr_password = sha256 (SHA256 E) (ui_password info)\<rparr> (users (db w))))"
proof -
  let ?u = "\<lparr>usr_id = 0, usr_name = ui_name info, usr_email = ui_email info,
    usr_password = sha256 (SHA256 E) (ui_password info)\<rparr>"
  have "\<not> is_hex NUL" by (simp add: is_hex_def)
  then have "NUL \<notin> set (usr_password ?u)"
    using hex_bytes_chars [of "SHA256 E (ui_password info)"] by (auto simp: sha256_def)
  obtain x w1 where d: "run_state (dao_create_user E ?u) w = (x, w1)" by (cases "run_state (dao_create_user E ?u) w")
  have c: "ok (db w1) \<and> (if x then ui_email info \<notin> usr_email ` users (db w) \<and>
      (\<exists>i. users (db w1) = insert (?u\<lparr>usr_id := i\<rparr>) (users (db w))) else users (db w1) = users (db w))"
    using create_user_contract [OF assms(1,2) _ _ \<open>NUL \<notin> set (usr_password ?u)\<close> d] assms(3,4) by (cases x) simp_all
  have f: "user_frame w w1" using dao_create_user_frame [OF assms(1), of E ?u] d by simp
  have j: "j = (if \<not> x then error_json (user_msg w1) else status_json ''created'')" "w' = w1"
    using assms(5) d by (auto simp: create_user_def)
  have "pool_ready (pg_pool w1)" "clock_ms w1 = clock_ms w" using f assms(1) by (simp_all add: user_frame_def)
  with c j show ?thesis by (cases x) auto
qed

end

end
