(* ===== verification/Reference_Stores.thy ===== *)
theory Reference_Stores
  imports Resource_Service User_Service
begin

text \<open>
  Executable reference versions of the code the server calls and does not contain: the two tables of
  \<^verbatim>\<open>src/db/schema.sql\<close> behind the statement texts of the DAOs, a Redis without expiry, tokens and JSON
  texts as length-prefixed fields, an object store. They satisfy the laws that the component theories
  state about these libraries, and the examples of the development run on them.
\<close>

section \<open>Length-prefixed fields\<close>

definition field :: "string \<Rightarrow> string" where
  "field s = show_nat (length s) @ CHR '':'' # s"

text \<open>The first field of a string and what follows it.\<close>

definition unfield :: "string \<Rightarrow> (string \<times> string) option" where
  "unfield s =
     (let n = takeWhile isdigit s; rest = dropWhile isdigit s in
      case rest of
        [] \<Rightarrow> None
      | c # t \<Rightarrow>
          if c = CHR '':'' \<and> n \<noteq> [] \<and> digits_val n \<le> length t
          then Some (take (digits_val n) t, drop (digits_val n) t) else None)"

lemma not_digit_colon [simp]: "\<not> isdigit (CHR '':'')"
  by (simp add: isdigit_def)

lemma takeWhile_field_digits [simp]: "takeWhile isdigit (show_nat n @ CHR '':'' # t) = show_nat n"
  by (subst takeWhile_append2) (auto simp: show_nat_digits)

lemma dropWhile_digits [simp]: "dropWhile isdigit (show_nat n @ CHR '':'' # t) = CHR '':'' # t"
  by (subst dropWhile_append2) (auto simp: show_nat_digits)

lemma unfield_field [simp]: "unfield (field s @ t) = Some (s, t)"
  by (simp add: unfield_def field_def)

section \<open>JSON texts\<close>

text \<open>
  A printer and a parser for the values: a tag letter and length-prefixed parts. An object or array is
  a sequence of fields; the parser is given the length of the text as fuel.
\<close>

fun print_json :: "json \<Rightarrow> string" where
  "print_json JNull = ''n''"
| "print_json (JBool b) = (if b then ''t'' else ''f'')"
| "print_json (JInt i) = CHR ''i'' # to_string i"
| "print_json (JReal s) = CHR ''r'' # s"
| "print_json (JString s) = CHR ''s'' # s"
| "print_json (JArray xs) = CHR ''a'' # concat (map (\<lambda>x. field (print_json x)) xs)"
| "print_json (JObject ms) = CHR ''o'' # concat (map (\<lambda>m. field (fst m) @ field (print_json (snd m))) ms)"

fun split_fields :: "nat \<Rightarrow> string \<Rightarrow> string list option" where
  "split_fields 0 s = (if s = [] then Some [] else None)"
| "split_fields (Suc n) s =
     (if s = [] then Some []
      else case unfield s of
        None \<Rightarrow> None
      | Some (x, rest) \<Rightarrow> map_option (\<lambda>xs. x # xs) (split_fields n rest))"

fun all_some :: "'a option list \<Rightarrow> 'a list option" where
  "all_some [] = Some []"
| "all_some (None # xs) = None"
| "all_some (Some x # xs) = map_option (\<lambda>ys. x # ys) (all_some xs)"

fun pair_up :: "'a list \<Rightarrow> ('a \<times> 'a) list" where
  "pair_up (x # y # xs) = (x, y) # pair_up xs"
| "pair_up _ = []"

fun parse_json :: "nat \<Rightarrow> string \<Rightarrow> json option" where
  "parse_json 0 s = None"
| "parse_json (Suc n) s =
     (case s of
        [] \<Rightarrow> None
      | c # t \<Rightarrow>
          if c = CHR ''n'' then Some JNull
          else if c = CHR ''t'' then Some (JBool True)
          else if c = CHR ''f'' then Some (JBool False)
          else if c = CHR ''i'' then Some (JInt (fst (strtol t)))
          else if c = CHR ''r'' then Some (JReal t)
          else if c = CHR ''s'' then Some (JString t)
          else if c = CHR ''a'' then
            Option.bind (split_fields (length t) t) (\<lambda>fs.
              map_option JArray (all_some (map (parse_json n) fs)))
          else if c = CHR ''o'' then
            Option.bind (split_fields (length t) t) (\<lambda>fs.
              map_option JObject (all_some (map (\<lambda>p. map_option (\<lambda>v. (fst p, v)) (parse_json n (snd p))) (pair_up fs))))
          else None)"

text \<open>The integers that a 64-bit reader can take back.\<close>

fun json_small :: "json \<Rightarrow> bool" where
  "json_small (JInt i) = (LONG_MIN \<le> i \<and> i \<le> LONG_MAX)"
| "json_small (JArray xs) = (\<forall>x \<in> set xs. json_small x)"
| "json_small (JObject ms) = (\<forall>m \<in> set ms. json_small (snd m))"
| "json_small _ = True"

definition ref_dump :: "json \<Rightarrow> exn + string" where
  "ref_dump j = (if json_small j then Inr (print_json j) else Inl type_error)"

definition ref_parse :: "string \<Rightarrow> exn + json" where
  "ref_parse s = (case parse_json (Suc (length s)) s of None \<Rightarrow> Inl (Parse_error ''syntax'') | Some j \<Rightarrow> Inr j)"

lemma field_nonempty [simp]: "field s \<noteq> []"
  by (simp add: field_def)

lemma split_fields_concat: "length xs \<le> n \<Longrightarrow> split_fields n (concat (map field xs)) = Some xs"
proof (induction xs arbitrary: n)
  case Nil
  then show ?case by (cases n) auto
next
  case (Cons x xs)
  then obtain m where "n = Suc m" "length xs \<le> m" by (cases n) auto
  with Cons.IH show ?case by simp
qed

lemma all_some_map: "(\<And>x. x \<in> set xs \<Longrightarrow> f x = Some (g x)) \<Longrightarrow> all_some (map f xs) = Some (map g xs)"
  by (induction xs) auto

lemma fields_length: "length xs \<le> length (concat (map field xs))"
  by (induction xs) (auto simp: field_def)

lemma field_length_mem: "x \<in> set xs \<Longrightarrow> length x < length (concat (map field xs))"
  by (induction xs) (auto simp: field_def)

lemma pair_up_flat: "pair_up (concat (map (\<lambda>m. [f m, g m]) ms)) = map (\<lambda>m. (f m, g m)) ms"
  by (induction ms) auto

lemma members_fields:
  "concat (map (\<lambda>m. field (f m) @ field (g m)) ms) = concat (map field (concat (map (\<lambda>m. [f m, g m]) ms)))"
  by (induction ms) auto

lemma parse_print: "json_small j \<Longrightarrow> length (print_json j) < n \<Longrightarrow> parse_json n (print_json j) = Some j"
proof (induction j arbitrary: n)
  case (JInt i)
  then obtain m where "n = Suc m" by (cases n) auto
  with JInt show ?case by (simp add: strtol_to_string)
next
  case (JArray xs)
  then obtain m where n: "n = Suc m" by (cases n) auto
  let ?fs = "map print_json xs"
  have t: "print_json (JArray xs) = CHR ''a'' # concat (map field ?fs)" by (simp add: comp_def)
  have "parse_json m (print_json x) = Some x" if "x \<in> set xs" for x
  proof (rule JArray.IH [OF that])
    show "json_small x" using JArray.prems(1) that by simp
    have "length (print_json x) < length (concat (map field ?fs))"
      using that by (intro field_length_mem) simp
    with JArray.prems(2) show "length (print_json x) < m" unfolding t n by simp
  qed
  then have "all_some (map (parse_json m) ?fs) = Some xs"
    using all_some_map [of xs "\<lambda>x. parse_json m (print_json x)" "\<lambda>x. x"] by (simp add: comp_def)
  then show ?case
    unfolding t n using split_fields_concat [OF fields_length, of ?fs] by simp
next
  case (JObject ms)
  then obtain m where n: "n = Suc m" by (cases n) auto
  let ?fs = "concat (map (\<lambda>p. [fst p, print_json (snd p)]) ms)"
  have t: "print_json (JObject ms) = CHR ''o'' # concat (map field ?fs)"
    by (simp add: members_fields)
  have "parse_json m (print_json (snd p)) = Some (snd p)" if "p \<in> set ms" for p
  proof (rule JObject.IH [OF that])
    show "snd p \<in> Basic_BNFs.snds p" by (simp add: snds.simps)
    show "json_small (snd p)" using JObject.prems(1) that by simp
    have "length (print_json (snd p)) < length (concat (map field ?fs))"
      using that by (intro field_length_mem) auto
    with JObject.prems(2) show "length (print_json (snd p)) < m" unfolding t n by simp
  qed
  then have "all_some (map (\<lambda>p. map_option (\<lambda>v. (fst p, v)) (parse_json m (snd p))) (pair_up ?fs)) = Some ms"
    using all_some_map [of ms "\<lambda>p. map_option (\<lambda>v. (fst p, v)) (parse_json m (print_json (snd p)))" "\<lambda>p. p"]
    by (simp add: pair_up_flat comp_def)
  then show ?case
    unfolding t n using split_fields_concat [OF fields_length, of ?fs] by simp
qed (auto simp: less_Suc_eq gr0_conv_Suc elim!: less_natE)

interpretation ref_json: json_library ref_parse ref_dump
  by unfold_locales (auto simp: ref_dump_def ref_parse_def parse_print simp del: parse_json.simps split: if_splits)

section \<open>Redis\<close>

type_synonym ref_redis = "string \<rightharpoonup> string"

fun ref_redis_exec :: "redis_context \<Rightarrow> redis_cmd \<Rightarrow> ref_redis \<Rightarrow> redis_reply option \<times> ref_redis" where
  "ref_redis_exec ctx (Redis_AUTH p) s = (Some (REPLY_STATUS ''OK''), s)"
| "ref_redis_exec ctx Redis_PING s = (Some (REPLY_STATUS ''PONG''), s)"
| "ref_redis_exec ctx (Redis_GET k) s =
     (case s k of None \<Rightarrow> (Some REPLY_NIL, s) | Some v \<Rightarrow> (Some (REPLY_STRING v), s))"
| "ref_redis_exec ctx (Redis_SETEX k ttl v) s = (Some (REPLY_STATUS ''OK''), s(k \<mapsto> v))"
| "ref_redis_exec ctx (Redis_DEL k) s =
     (Some (REPLY_INTEGER (if s k = None then 0 else 1)), s(k := None))"

section \<open>PostgreSQL\<close>

text \<open>The two tables, and the value the identity columns give next.\<close>

record ref_db =
  users_tbl :: "User list"
  resources_tbl :: "Resource list"
  next_id :: int

definition ref_fail :: "PGresult option" where
  "ref_fail = Some \<lparr>pg_status = PGRES_FATAL_ERROR, pg_rows = [], pg_cmd_tuples = ''''\<rparr>"

definition ref_command :: "nat \<Rightarrow> PGresult option" where
  "ref_command n = Some \<lparr>pg_status = PGRES_COMMAND_OK, pg_rows = [], pg_cmd_tuples = to_string (int n)\<rparr>"

definition ref_tuples :: "string option list list \<Rightarrow> PGresult option" where
  "ref_tuples rows = Some \<lparr>pg_status = PGRES_TUPLES_OK, pg_rows = rows, pg_cmd_tuples = ''''\<rparr>"

definition resource_row :: "Resource \<Rightarrow> string option list" where
  "resource_row r = [Some (to_string (res_id r)), Some (res_title r), Some (res_content r),
     Some (if res_is_file r then ''t'' else ''f'')]"

definition user_row :: "User \<Rightarrow> string option list" where
  "user_row u = [Some (to_string (usr_id u)), Some (usr_name u), Some (usr_email u), Some (usr_password u)]"

definition ref_pg_exec :: "PGconn \<Rightarrow> string \<Rightarrow> string list \<Rightarrow> ref_db \<Rightarrow> PGresult option \<times> ref_db" where
  "ref_pg_exec c sql ps d =
     (if sql = sql_insert_resource \<and> length ps = 4 then
        (if next_id d \<ge> INT_MAX then (ref_fail, d)
         else (ref_command 1, d\<lparr>resources_tbl := resources_tbl d @
           [\<lparr>res_id = next_id d, res_user_id = atoi (ps ! 0), res_title = ps ! 1, res_content = ps ! 2,
             res_is_file = (ps ! 3 = ''true'')\<rparr>], next_id := next_id d + 1\<rparr>))
      else if sql = sql_select_resources \<and> length ps = 1 then
        (ref_tuples (map resource_row (filter (\<lambda>r. res_user_id r = atoi (ps ! 0)) (resources_tbl d))), d)
      else if sql = sql_select_resource \<and> length ps = 2 then
        (ref_tuples (map resource_row (filter (owned (atoi (ps ! 0)) (atoi (ps ! 1))) (resources_tbl d))), d)
      else if sql = sql_update_resource \<and> length ps = 4 then
        (let own = owned (atoi (ps ! 2)) (atoi (ps ! 3)) in
         (ref_command (length (filter own (resources_tbl d))),
          d\<lparr>resources_tbl := map (\<lambda>r. if own r then r\<lparr>res_title := ps ! 0, res_content := ps ! 1\<rparr> else r) (resources_tbl d)\<rparr>))
      else if sql = sql_delete_resource \<and> length ps = 2 then
        (let own = owned (atoi (ps ! 1)) (atoi (ps ! 0)) in
         (ref_command (length (filter own (resources_tbl d))),
          d\<lparr>resources_tbl := filter (\<lambda>r. \<not> own r) (resources_tbl d)\<rparr>))
      else if sql = sql_insert_user \<and> length ps = 3 then
        (if next_id d \<ge> INT_MAX \<or> ps ! 1 \<in> usr_email ` set (users_tbl d) then (ref_fail, d)
         else (ref_command 1, d\<lparr>users_tbl := users_tbl d @
           [\<lparr>usr_id = next_id d, usr_name = ps ! 0, usr_email = ps ! 1, usr_password = ps ! 2\<rparr>],
           next_id := next_id d + 1\<rparr>))
      else if sql = sql_select_user \<and> length ps = 1 then
        (ref_tuples (map user_row (filter (\<lambda>u. usr_email u = ps ! 0) (users_tbl d))), d)
      else (ref_fail, d))"

definition ref_ok :: "ref_db \<Rightarrow> bool" where
  "ref_ok d = (distinct (map res_id (resources_tbl d)) \<and> distinct (map usr_email (users_tbl d)) \<and>
     (\<forall>r \<in> set (resources_tbl d). 0 < res_id r \<and> res_id r < next_id d) \<and>
     (\<forall>u \<in> set (users_tbl d). 0 < usr_id u \<and> usr_id u < next_id d) \<and>
     0 < next_id d \<and> next_id d \<le> INT_MAX)"

definition ref_table :: "ref_db \<Rightarrow> Resource set" where
  "ref_table d = set (resources_tbl d)"

section \<open>Tokens and objects\<close>

definition ref_sign :: "jwt_claims \<Rightarrow> string \<Rightarrow> exn + string" where
  "ref_sign c secret = Inr (field (jwt_iss c) @ field (jwt_sub c) @ field (to_string (jwt_iat c)) @
     field (to_string (jwt_exp c)) @ field secret)"

definition ref_fields :: "string \<Rightarrow> string list option" where
  "ref_fields t = split_fields 5 t"

definition ref_decode :: "string \<Rightarrow> exn + string" where
  "ref_decode t = (case ref_fields t of Some [i, s, a, x, k] \<Rightarrow> Inr t | _ \<Rightarrow> Inl (Std_exception ''invalid token''))"

definition ref_int :: "string \<Rightarrow> int" where
  "ref_int s = (case s of [] \<Rightarrow> 0 | c # t \<Rightarrow> if c = CHR ''-'' then - int (digits_val t) else int (digits_val s))"

lemma ref_int_to_string [simp]: "ref_int (to_string i) = i"
proof (cases "i < 0")
  case False
  have "hd (show_nat (nat i)) \<noteq> CHR ''-''"
    using show_nat_digits [of "nat i"] hd_in_set [OF show_nat_nonempty, of "nat i"]
    by (metis minus_no_digit(1))
  with False show ?thesis
    by (cases "show_nat (nat i)") (auto simp: ref_int_def to_string_def, metis digits_val_show_nat nat_0_le linorder_not_less)
qed (simp add: ref_int_def to_string_def)

definition ref_verify :: "string \<Rightarrow> string \<Rightarrow> int \<Rightarrow> string \<Rightarrow> exn + unit" where
  "ref_verify secret issuer now t =
     (case ref_fields t of
        Some [i, s, a, x, k] \<Rightarrow>
          if k = secret \<and> i = issuer \<and> ref_int a \<le> now \<and> now < ref_int x
          then Inr () else Inl (Std_exception ''token verification failed'')
      | _ \<Rightarrow> Inl (Std_exception ''invalid token''))"

definition ref_subject :: "string \<Rightarrow> exn + string" where
  "ref_subject t = (case ref_fields t of Some [i, s, a, x, k] \<Rightarrow> Inr s | _ \<Rightarrow> Inl (Std_exception ''no subject''))"

type_synonym ref_objects = "(string \<times> string) list"

definition ref_remove :: "s3_client \<Rightarrow> string \<Rightarrow> string \<Rightarrow> ref_objects \<Rightarrow> (exn + (string + unit)) \<times> ref_objects" where
  "ref_remove client bucket key ob = (Inr (Inr ()), filter (\<lambda>o1. o1 \<noteq> (bucket, key)) ob)"

definition ref_presign :: "s3_client \<Rightarrow> http_method \<Rightarrow> string \<Rightarrow> string \<Rightarrow> int \<Rightarrow> exn + (string + string)" where
  "ref_presign client method bucket key expires =
     Inr (Inr (s3_host client @ ''/'' @ bucket @ ''/'' @ key @ ''?X-Amz-Expires='' @ to_string expires))"

definition ref_environ :: environ where
  "ref_environ name = (if name = ''JWT_SECRET'' then Some ''secret'' else None)"

section \<open>The reference externals\<close>

definition ref_ext :: "(ref_db, ref_redis, ref_objects) externals" where
  "ref_ext = \<lparr>environ = ref_environ, pg_exec = ref_pg_exec, pg_errmsg = (\<lambda>_ _. ''error''),
     redis_connect = (\<lambda>_ _ s. (Connect_ok 0, s)), redis_tls = (\<lambda>_ _ s. (Tls_ok, s)),
     redis_exec = ref_redis_exec, redis_errstr = (\<lambda>_ _. ''error''),
     json_parse = ref_parse, json_dump = ref_dump, jwt_sign = ref_sign, jwt_decode = ref_decode,
     jwt_verify = ref_verify, jwt_subject = ref_subject, SHA256 = (\<lambda>s. s),
     minio_presign = ref_presign, aws_presign = (\<lambda>_ _ _ _ _. Inr ''''), minio_remove = ref_remove\<rparr>"

lemma ref_ext_simps [simp]:
  "environ ref_ext = ref_environ" "pg_exec ref_ext = ref_pg_exec"
  "redis_connect ref_ext = (\<lambda>_ _ s. (Connect_ok 0, s))" "redis_tls ref_ext = (\<lambda>_ _ s. (Tls_ok, s))"
  "redis_exec ref_ext = ref_redis_exec" "json_parse ref_ext = ref_parse" "json_dump ref_ext = ref_dump"
  "jwt_sign ref_ext = ref_sign" "jwt_decode ref_ext = ref_decode" "jwt_verify ref_ext = ref_verify"
  "jwt_subject ref_ext = ref_subject" "SHA256 ref_ext = (\<lambda>s. s)" "minio_presign ref_ext = ref_presign"
  "minio_remove ref_ext = ref_remove"
  by (simp_all add: ref_ext_def)

text \<open>A world: one user with a note and a file, an empty cache, one connection to each store.\<close>

definition note_row :: Resource where
  "note_row = \<lparr>res_id = 2, res_user_id = 1, res_title = ''note'', res_content = ''hello'', res_is_file = False\<rparr>"

definition file_row :: Resource where
  "file_row = \<lparr>res_id = 3, res_user_id = 1, res_title = ''file'',
     res_content = ''http://localhost:9000/webserver-files/users/1/uploads/7-a.png'', res_is_file = True\<rparr>"

definition ref_user :: User where
  "ref_user = \<lparr>usr_id = 1, usr_name = ''Ann'', usr_email = ''a@x'', usr_password = ''7077''\<rparr>"

definition ref_world :: "(ref_db, ref_redis, ref_objects) world" where
  "ref_world = \<lparr>db = \<lparr>users_tbl = [ref_user], resources_tbl = [note_row, file_row], next_id = 4\<rparr>,
     redis_srv = Map.empty, objects = [(''webserver-files'', ''users/1/uploads/7-a.png'')],
     pg_pool = \<lparr>max_conn = 1, cur_conn = 0, free_conn = 1, reserve = 1, conn_list = [1]\<rparr>,
     redis = \<lparr>rc_host = ''localhost'', rc_port = 6379, rc_password = '''', rc_use_tls = False,
       rc_available = True, rc_max_conn = 10, rc_conn_pool = [0], rc_freed = []\<rparr>,
     resource_msg = '''', user_msg = '''', clock_ms = 0, log_calls = [], console = ''''\<rparr>"

interpretation ref_cache: redis_reliable ref_ext "\<lambda>s. s"
  by unfold_locales (auto simp: map_le_def split: option.splits)

lemma ref_fields_signed:
  "ref_fields (field (jwt_iss c) @ field (jwt_sub c) @ field (to_string (jwt_iat c)) @
     field (to_string (jwt_exp c)) @ field s) =
   Some [jwt_iss c, jwt_sub c, to_string (jwt_iat c), to_string (jwt_exp c), s]"
  using split_fields_concat [of "[jwt_iss c, jwt_sub c, to_string (jwt_iat c), to_string (jwt_exp c), s]" 5]
  by (simp add: ref_fields_def)

interpretation ref_tokens: jwt_library ref_sign ref_decode ref_verify ref_subject
  by unfold_locales
     (auto simp: ref_sign_def ref_decode_def ref_subject_def ref_verify_def ref_fields_signed split: if_splits)

section \<open>The statements on the reference tables\<close>

lemma sql_distinct:
  "distinct [sql_insert_resource, sql_select_resources, sql_select_resource, sql_update_resource,
     sql_delete_resource, sql_insert_user, sql_select_user]"
  by code_simp

lemma ref_exec:
  "ref_pg_exec c sql_insert_resource [u, t, x, f] d =
     (if next_id d \<ge> INT_MAX then (ref_fail, d)
      else (ref_command 1, d\<lparr>resources_tbl := resources_tbl d @
        [\<lparr>res_id = next_id d, res_user_id = atoi u, res_title = t, res_content = x,
          res_is_file = (f = ''true'')\<rparr>], next_id := next_id d + 1\<rparr>))"
  "ref_pg_exec c sql_select_resources [u] d =
     (ref_tuples (map resource_row (filter (\<lambda>r. res_user_id r = atoi u) (resources_tbl d))), d)"
  "ref_pg_exec c sql_select_resource [u, i] d =
     (ref_tuples (map resource_row (filter (owned (atoi u) (atoi i)) (resources_tbl d))), d)"
  "ref_pg_exec c sql_update_resource [t, x, u, i] d =
     (ref_command (length (filter (owned (atoi u) (atoi i)) (resources_tbl d))),
      d\<lparr>resources_tbl := map (\<lambda>r. if owned (atoi u) (atoi i) r
         then r\<lparr>res_title := t, res_content := x\<rparr> else r) (resources_tbl d)\<rparr>)"
  "ref_pg_exec c sql_delete_resource [i, u] d =
     (ref_command (length (filter (owned (atoi u) (atoi i)) (resources_tbl d))),
      d\<lparr>resources_tbl := filter (\<lambda>r. \<not> owned (atoi u) (atoi i) r) (resources_tbl d)\<rparr>)"
  "ref_pg_exec c sql_insert_user [n, m, p] d =
     (if next_id d \<ge> INT_MAX \<or> m \<in> usr_email ` set (users_tbl d) then (ref_fail, d)
      else (ref_command 1, d\<lparr>users_tbl := users_tbl d @
        [\<lparr>usr_id = next_id d, usr_name = n, usr_email = m, usr_password = p\<rparr>], next_id := next_id d + 1\<rparr>))"
  "ref_pg_exec c sql_select_user [m] d =
     (ref_tuples (map user_row (filter (\<lambda>u. usr_email u = m) (users_tbl d))), d)"
  using sql_distinct by (auto simp: ref_pg_exec_def Let_def)

lemma ref_ok_update:
  "ref_ok d \<Longrightarrow> ref_ok (d\<lparr>resources_tbl := map (\<lambda>r. if P r then r\<lparr>res_title := t, res_content := x\<rparr> else r) (resources_tbl d)\<rparr>)"
proof -
  have "res_id \<circ> (\<lambda>r. if P r then r\<lparr>res_title := t, res_content := x\<rparr> else r) = res_id"
    by (rule ext) simp
  moreover assume "ref_ok d"
  ultimately show ?thesis by (auto simp: ref_ok_def)
qed

lemma ref_ok_filter: "ref_ok d \<Longrightarrow> ref_ok (d\<lparr>resources_tbl := filter P (resources_tbl d)\<rparr>)"
  by (auto simp: ref_ok_def distinct_map_filter)

lemma ref_ok_insert:
  "ref_ok d \<Longrightarrow> \<not> INT_MAX \<le> next_id d \<Longrightarrow> res_id r = next_id d \<Longrightarrow>
   ref_ok (d\<lparr>resources_tbl := resources_tbl d @ [r], next_id := next_id d + 1\<rparr>)"
  by (auto simp: ref_ok_def)

lemma ref_ok_insert_user:
  "ref_ok d \<Longrightarrow> \<not> INT_MAX \<le> next_id d \<Longrightarrow> usr_id u = next_id d \<Longrightarrow> usr_email u \<notin> usr_email ` set (users_tbl d) \<Longrightarrow>
   ref_ok (d\<lparr>users_tbl := users_tbl d @ [u], next_id := next_id d + 1\<rparr>)"
  by (auto simp: ref_ok_def)

lemma ref_ok_exec: "ref_ok d \<Longrightarrow> ref_ok (snd (ref_pg_exec c sql ps d))"
  unfolding ref_pg_exec_def Let_def
  by (simp add: ref_ok_update ref_ok_filter ref_ok_insert ref_ok_insert_user)

lemma ref_row_of: "row_of r (resource_row r)"
  by (simp add: row_of_def resource_row_def)

lemma rows_all2: "(\<And>x. R x (f x)) \<Longrightarrow> list_all2 R xs (map f xs)"
  by (simp add: list_all2_conv_all_nth)

lemma ref_count: "ref_ok d \<Longrightarrow> length (filter P (resources_tbl d)) = card {y \<in> ref_table d. P y}"
  by (subst distinct_length_filter) (auto simp: ref_ok_def ref_table_def distinct_map intro: arg_cong [of _ _ card])

lemma ref_commanded: "commanded (ref_command n) m \<longleftrightarrow> n = m"
  by (auto simp: commanded_def ref_command_def)

lemma ref_failed: "failed ref_fail"
  by (simp add: failed_def ref_fail_def)

lemma ref_selected:
  "ref_ok d \<Longrightarrow> selected (ref_tuples (map resource_row (filter P (resources_tbl d)))) P (ref_table d)"
  by (auto simp: selected_def ref_tuples_def rows_all2 ref_row_of ref_ok_def ref_table_def distinct_map
      intro!: exI [of _ "filter P (resources_tbl d)"])

lemma ref_fresh: "ref_ok d \<Longrightarrow> next_id d \<notin> res_id ` ref_table d"
  by (auto simp: ref_ok_def ref_table_def)

interpretation ref_res: pg_resources ref_ext ref_table ref_ok
proof (unfold_locales, goal_cases)
  case (1 d)
  then show ?case by (auto simp: ref_ok_def ref_table_def distinct_map int32_def int_bounds)
next
  case (2 d c sql ps)
  then show ?case using ref_ok_exec by simp
next
  case (3 d u c r d')
  then show ?case using ref_selected [of d "\<lambda>x. res_user_id x = u"] by (auto simp: ref_exec)
next
  case (4 d u i c r d')
  then show ?case using ref_selected [of d "owned u i"] by (auto simp: ref_exec)
next
  case (5 d u t x c f r d')
  then show ?case
    using ref_fresh [of d] by (auto simp: ref_exec ref_failed ref_commanded ref_table_def split: if_splits)
next
  case (6 d u i t x c r d')
  then show ?case
    by (auto simp: ref_exec ref_commanded ref_count) (auto simp: ref_table_def)
next
  case (7 d u i c r d')
  then show ?case
    by (auto simp: ref_exec ref_commanded ref_count) (auto simp: ref_table_def)
qed

interpretation ref_usr: pg_users ref_ext "\<lambda>d. set (users_tbl d)" ref_ok
proof (unfold_locales, goal_cases)
  case (1 d)
  then show ?case by (auto simp: ref_ok_def distinct_map int32_def int_bounds)
next
  case (2 d c sql ps)
  then show ?case using ref_ok_exec by simp
next
  case (3 d n m p c r d')
  then show ?case by (auto simp: ref_exec ref_failed ref_commanded split: if_splits)
next
  case (4 d m c r d')
  let ?us = "filter (\<lambda>u. usr_email u = m) (users_tbl d)"
  have "list_all2 user_row_of ?us (map user_row ?us)"
    by (rule rows_all2) (simp add: user_row_of_def user_row_def)
  moreover have "set ?us = {u \<in> set (users_tbl d). usr_email u = m}" by auto
  ultimately have "\<exists>us. list_all2 user_row_of us (map user_row ?us) \<and> set us = {u \<in> set (users_tbl d). usr_email u = m}"
    by blast
  with 4 show ?case by (auto simp: ref_exec ref_tuples_def)
qed

interpretation ref_store: resource_store_reliable ref_ext ref_table ref_ok "\<lambda>s. s"
  by unfold_locales (simp add: ref_json.parse_dump)

lemma ref_world_inv: "service_inv ref_ext ref_table ref_ok (\<lambda>s. s) ref_world"
  by (simp add: service_inv_def ref_world_def pool_ready_def redis_ready_def ref_ok_def coherent_def
      note_row_def file_row_def ref_user_def int_bounds)

lemma ref_world_table: "ref_table (db ref_world) = {note_row, file_row}"
  by (auto simp: ref_table_def ref_world_def)

end
