(* ===== verification/Http_Request.thy ===== *)
theory Http_Request
  imports Prelude
begin

text \<open>
  The connection object of \<^verbatim>\<open>src/src/network/http_conn.h\<close> and the request half of
  \<^verbatim>\<open>src/src/network/http_conn.cpp\<close> that does not call a service: the socket read loop, the
  CRLF line scanner, the request-line parser with its route marker, one header field, and the
  query-string splitter. The read buffer is a memory of bytes; pointers into it
  (\<^verbatim>\<open>m_url\<close>, \<^verbatim>\<open>m_version\<close>, \<^verbatim>\<open>m_host\<close>, \<^verbatim>\<open>text\<close>) are offsets, \<^const>\<open>None\<close> for a null pointer,
  and the code's in-place NUL writes are function updates.
\<close>

section \<open>The connection object\<close>

datatype METHOD = GET | POST | HEAD | PUT | DELETE

datatype CHECK_STATE = CHECK_STATE_REQUESTLINE | CHECK_STATE_HEADER | CHECK_STATE_CONTENT

datatype HTTP_CODE =
    NO_REQUEST | BAD_REQUEST | NO_RESOURCE | FORBIDDEN_REQUEST | INTERNAL_ERROR
  | CLOSED_CONNECTION | GET_RESOURCE | ADD_RESOURCE | UPDATE_RESOURCE | DELETE_RESOURCE

datatype LINE_STATUS = LINE_OK | LINE_BAD | LINE_OPEN

definition READ_BUFFER_SIZE :: nat where "READ_BUFFER_SIZE = 65536"
definition WRITE_BUFFER_SIZE :: nat where "WRITE_BUFFER_SIZE = 1024"

text \<open>
  The two \<^verbatim>\<open>iovec\<close> entries are the byte strings they denote.
\<close>

record http_conn =
  m_sockfd :: int
  m_read_buf :: "nat \<Rightarrow> char"
  m_read_index :: nat
  m_checked_index :: nat
  m_start_line :: nat
  m_check_stat :: CHECK_STATE
  m_method :: METHOD
  m_url :: "nat option"
  m_version :: "nat option"
  m_host :: "nat option"
  m_content_length :: int
  m_linger :: bool
  token :: string
  json_res :: string
  apireq :: nat
  m_write_buf :: "nat \<Rightarrow> char"
  m_write_index :: nat
  m_iv0 :: string
  m_iv1 :: string
  m_iv_count :: nat

text \<open>\<^verbatim>\<open>http_conn::init()\<close>: everything but the socket is reset.\<close>

definition init :: "http_conn \<Rightarrow> http_conn" where
  "init c = c\<lparr>
     m_check_stat := CHECK_STATE_REQUESTLINE,
     m_linger := True,
     m_method := GET,
     m_url := None,
     m_version := None,
     m_content_length := 0,
     m_host := None,
     m_checked_index := 0,
     m_start_line := 0,
     m_read_index := 0,
     m_write_index := 0,
     m_iv_count := 0,
     json_res := '''',
     token := '''',
     apireq := 0,
     m_read_buf := (\<lambda>_. NUL),
     m_write_buf := (\<lambda>_. NUL),
     m_iv0 := '''',
     m_iv1 := ''''\<rparr>"

section \<open>The read buffer\<close>

text \<open>The C string at an offset: the bytes up to the first NUL, within the array.\<close>

fun cstr_from :: "(nat \<Rightarrow> char) \<Rightarrow> nat \<Rightarrow> nat \<Rightarrow> string" where
  "cstr_from m p 0 = []"
| "cstr_from m p (Suc n) = (if m p = NUL then [] else m p # cstr_from m (Suc p) n)"

definition cstr :: "(nat \<Rightarrow> char) \<Rightarrow> nat \<Rightarrow> string" where
  "cstr m p = cstr_from m p (READ_BUFFER_SIZE - p)"

text \<open>\<^verbatim>\<open>recv\<close> stores its bytes at \<^verbatim>\<open>m_read_buf + m_read_index\<close>.\<close>

definition buf_write :: "(nat \<Rightarrow> char) \<Rightarrow> nat \<Rightarrow> string \<Rightarrow> nat \<Rightarrow> char" where
  "buf_write m i s = (\<lambda>j. if i \<le> j \<and> j < i + length s then s ! (j - i) else m j)"

text \<open>
  What the kernel does in one non-blocking \<^verbatim>\<open>recv\<close>: the bytes the peer has sent so far, then
  end of file, \<^verbatim>\<open>EAGAIN\<close>/\<^verbatim>\<open>EWOULDBLOCK\<close>, or another error. A request for zero bytes
  returns 0.
\<close>

datatype recv_end = Recv_again | Recv_eof | Recv_error

text \<open>
  The loop of \<^verbatim>\<open>http_conn::read\<close>, over the segments that successive \<^verbatim>\<open>recv\<close> calls can see. A
  segment longer than the space left is delivered in part and its rest is seen by the next call.
\<close>

function read_loop :: "string list \<Rightarrow> recv_end \<Rightarrow> http_conn \<Rightarrow> bool \<times> http_conn" where
  "read_loop segs e c =
     (let room = READ_BUFFER_SIZE - m_read_index c in
      if room = 0 then (False, c)
      else case segs of
        [] \<Rightarrow> (case e of Recv_again \<Rightarrow> (True, c) | Recv_eof \<Rightarrow> (False, c) | Recv_error \<Rightarrow> (False, c))
      | s # rest \<Rightarrow>
          if s = [] then read_loop rest e c
          else
            let got = take room s;
                c' = c\<lparr>m_read_buf := buf_write (m_read_buf c) (m_read_index c) got,
                       m_read_index := m_read_index c + length got\<rparr>
            in read_loop (if drop room s = [] then rest else drop room s # rest) e c')"
  by pat_completeness auto
termination
  by (relation "measures [\<lambda>(segs, e, c). length (concat segs), \<lambda>(segs, e, c). length segs]")
     (auto simp: min_def)

declare read_loop.simps [simp del]

definition read :: "string list \<Rightarrow> recv_end \<Rightarrow> http_conn \<Rightarrow> bool \<times> http_conn" where
  "read segs e c =
     (if m_read_index c \<ge> READ_BUFFER_SIZE then (False, c) else read_loop segs e c)"

section \<open>The line scanner\<close>

function parse_line :: "http_conn \<Rightarrow> LINE_STATUS \<times> http_conn" where
  "parse_line c =
     (let i = m_checked_index c; b = m_read_buf c in
      if i < m_read_index c then
        (if b i = CR then
           (if i + 1 = m_read_index c then (LINE_OPEN, c)
            else if b (i + 1) = LF then
              (LINE_OK, c\<lparr>m_read_buf := b(i := NUL, i + 1 := NUL), m_checked_index := i + 2\<rparr>)
            else (LINE_BAD, c))
         else if b i = LF then
           (if 1 < i \<and> b (i - 1) = CR then
              (LINE_OK, c\<lparr>m_read_buf := b(i - 1 := NUL, i := NUL), m_checked_index := i + 1\<rparr>)
            else (LINE_BAD, c))
         else parse_line (c\<lparr>m_checked_index := i + 1\<rparr>))
      else (LINE_OPEN, c))"
  by pat_completeness auto
termination
  by (relation "measure (\<lambda>c. m_read_index c - m_checked_index c)") auto

declare parse_line.simps [simp del]

definition get_line :: "http_conn \<Rightarrow> nat" where
  "get_line c = m_start_line c"

section \<open>The request line\<close>

definition set_method :: "string \<Rightarrow> METHOD \<Rightarrow> METHOD" where
  "set_method s m =
     (if strcasecmp_eq s ''POST'' then POST
      else if strcasecmp_eq s ''PUT'' then PUT
      else if strcasecmp_eq s ''GET'' then GET
      else if strcasecmp_eq s ''DELETE'' then DELETE
      else m)"

text \<open>The route marker: the tests run in order and a later match overwrites an earlier one.\<close>

definition mark_route :: "string \<Rightarrow> nat \<Rightarrow> nat" where
  "mark_route url a0 =
     (let a1 = (if strncmp_eq url ''/api/resources'' 14 then 1 else a0);
          a2 = (if strncmp_eq url ''/api/login'' 10 then 2 else a1);
          a3 = (if strncmp_eq url ''/api/logout'' 11 then 3 else a2);
          a4 = (if strncmp_eq url ''/api/register'' 13 then 4 else a3);
          a5 = (if strncmp_eq url ''/api/files/upload-url'' 21 then 5 else a4);
          a6 = (if strncmp_eq url ''/api/files/download-url'' 23 then 6 else a5);
          a7 = (if url = ''/health'' then 7 else a6)
      in a7)"

text \<open>An absolute-form target is cut at the first slash after \<^verbatim>\<open>http://\<close>.\<close>

definition normalize_target :: "(nat \<Rightarrow> char) \<Rightarrow> nat \<Rightarrow> nat option" where
  "normalize_target b url =
     (if strncasecmp_eq (cstr b url) ''http://'' 7
      then map_option (\<lambda>k. url + 7 + k) (strchr (cstr b (url + 7)) (CHR ''/''))
      else Some url)"

definition parse_request_line :: "nat \<Rightarrow> http_conn \<Rightarrow> HTTP_CODE \<times> http_conn" where
  "parse_request_line text c =
     (case strpbrk_blank (cstr (m_read_buf c) text) of
        None \<Rightarrow> (BAD_REQUEST, c\<lparr>m_url := None\<rparr>)
      | Some i \<Rightarrow>
          let url = text + i + 1;
              b1 = (m_read_buf c)(text + i := NUL);
              c1 = c\<lparr>m_read_buf := b1, m_url := Some url,
                     m_method := set_method (cstr b1 text) (m_method c)\<rparr>
          in case strpbrk_blank (cstr b1 url) of
               None \<Rightarrow> (BAD_REQUEST, c1\<lparr>m_version := None\<rparr>)
             | Some k \<Rightarrow>
                 let version = url + k + 1;
                     b2 = b1(url + k := NUL);
                     c2 = c1\<lparr>m_read_buf := b2, m_version := Some version\<rparr>
                 in if \<not> strcasecmp_eq (cstr b2 version) ''HTTP/1.1'' then (BAD_REQUEST, c2)
                    else
                      let c3 = c2\<lparr>apireq := mark_route (cstr b2 url) (apireq c2),
                                  m_url := normalize_target b2 url\<rparr>
                      in case m_url c3 of
                           None \<Rightarrow> (BAD_REQUEST, c3)
                         | Some u \<Rightarrow>
                             if b2 u \<noteq> CHR ''/'' then (BAD_REQUEST, c3)
                             else (NO_REQUEST, c3\<lparr>m_check_stat := CHECK_STATE_HEADER\<rparr>))"

section \<open>One header field\<close>

text \<open>The branches of \<^verbatim>\<open>parse_headers\<close> for a non-empty line.\<close>

definition parse_header_field :: "nat \<Rightarrow> http_conn \<Rightarrow> http_conn" where
  "parse_header_field text c =
     (let b = m_read_buf c; s = cstr b text in
      if strncasecmp_eq s ''Connection:'' 11 then
        (let v = cstr b (text + 11 + strspn_blank (cstr b (text + 11))) in
         if strcasecmp_eq v ''keep-alive'' then c\<lparr>m_linger := True\<rparr>
         else if strcasecmp_eq v ''close'' then c\<lparr>m_linger := False\<rparr>
         else c)
      else if strncasecmp_eq s ''Content-Length:'' 15 then
        (let v = cstr b (text + 15 + strspn_blank (cstr b (text + 15))) in
         c\<lparr>m_content_length := to_int32 (atol v)\<rparr>)
      else if strncasecmp_eq s ''Host:'' 5 then
        c\<lparr>m_host := Some (text + 5 + strspn_blank (cstr b (text + 5)))\<rparr>
      else if strncasecmp_eq s ''Authorization:'' 14 then
        (let auth = cstr b (text + 14 + strspn_blank (cstr b (text + 14))) in
         if starts_with auth ''Bearer '' then c\<lparr>token := drop 7 auth\<rparr> else c)
      else c)"

section \<open>The query string\<close>

text \<open>
  \<^verbatim>\<open>parse_query\<close> writes a NUL over the first \<^verbatim>\<open>=\<close> and returns key and value; both stay empty
  when there is none.
\<close>

definition parse_query :: "nat \<Rightarrow> (nat \<Rightarrow> char) \<Rightarrow> string \<times> string \<times> (nat \<Rightarrow> char)" where
  "parse_query q b =
     (case strchr (cstr b q) (CHR ''='') of
        None \<Rightarrow> ('''', '''', b)
      | Some k \<Rightarrow>
          let b' = b(q + k := NUL) in (cstr b' q, cstr b' (q + k + 1), b'))"

text \<open>
  The part shared by the three handlers that read a query: cut the target at its first question
  mark and split what follows. The flag says whether there was one.
\<close>

definition split_target :: "http_conn \<Rightarrow> bool \<times> string \<times> string \<times> http_conn" where
  "split_target c =
     (case m_url c of
        None \<Rightarrow> (False, '''', '''', c)
      | Some u \<Rightarrow>
          (case strchr (cstr (m_read_buf c) u) (CHR ''?'') of
             None \<Rightarrow> (False, '''', '''', c)
           | Some k \<Rightarrow>
               let (key, value, b) = parse_query (u + k + 1) ((m_read_buf c)(u + k := NUL))
               in (True, key, value, c\<lparr>m_read_buf := b\<rparr>)))"

section \<open>Regions of the buffer\<close>

text \<open>\<open>holds m p s\<close>: the bytes from offset \<open>p\<close> on are those of \<open>s\<close>.\<close>

definition holds :: "(nat \<Rightarrow> char) \<Rightarrow> nat \<Rightarrow> string \<Rightarrow> bool" where
  "holds m p s = (\<forall>k < length s. m (p + k) = s ! k)"

text \<open>
  Well-formed parser state: the cursor and the line start lie inside the received bytes, which
  fit the array, and nothing was stored behind them.
\<close>

definition buf_ok :: "http_conn \<Rightarrow> bool" where
  "buf_ok c = (m_start_line c \<le> m_checked_index c \<and> m_checked_index c \<le> m_read_index c \<and>
     m_read_index c \<le> READ_BUFFER_SIZE \<and> (\<forall>j \<ge> m_read_index c. m_read_buf c j = NUL))"

text \<open>The connection after one more segment has been stored.\<close>

definition received :: "string \<Rightarrow> http_conn \<Rightarrow> http_conn" where
  "received d c = c\<lparr>m_read_buf := buf_write (m_read_buf c) (m_read_index c) d,
                    m_read_index := m_read_index c + length d\<rparr>"

lemma holds_Nil [simp]: "holds m p []"
  by (simp add: holds_def)

lemma holds_Cons [simp]: "holds m p (x # s) \<longleftrightarrow> m p = x \<and> holds m (Suc p) s"
  unfolding holds_def by (auto simp: nth_Cons split: nat.splits)

lemma holds_append [simp]: "holds m p (s @ t) \<longleftrightarrow> holds m p s \<and> holds m (p + length s) t"
  by (induction s arbitrary: p) auto

lemma holds_nth: "holds m p s \<Longrightarrow> k < length s \<Longrightarrow> m (p + k) = s ! k"
  by (simp add: holds_def)

lemma holds_upd [simp]:
  "j < p \<or> p + length s \<le> j \<Longrightarrow> holds (m(j := x)) p s \<longleftrightarrow> holds m p s"
  unfolding holds_def by (metis fun_upd_other le_add1 nat_add_left_cancel_less not_less)

lemma holds_buf_write: "holds (buf_write m i s) i s"
  by (simp add: holds_def buf_write_def)

lemma buf_write_before [simp]: "j < i \<Longrightarrow> buf_write m i s j = m j"
  by (simp add: buf_write_def)

lemma buf_write_after [simp]: "i + length s \<le> j \<Longrightarrow> buf_write m i s j = m j"
  by (simp add: buf_write_def)

lemma buf_write_append: "buf_write (buf_write m i s) (i + length s) t = buf_write m i (s @ t)"
  by (rule ext) (auto simp: buf_write_def nth_append)

lemma holds_cstr_from:
  "holds m p s \<Longrightarrow> NUL \<notin> set s \<Longrightarrow> m (p + length s) = NUL \<Longrightarrow> length s < n \<Longrightarrow> cstr_from m p n = s"
proof (induction s arbitrary: p n)
  case Nil
  then show ?case by (cases n) auto
next
  case (Cons x s)
  then show ?case by (cases n) auto
qed

text \<open>A region without NUL that is followed by one is the C string at its start.\<close>

lemma cstr_eqI:
  "holds m p s \<Longrightarrow> NUL \<notin> set s \<Longrightarrow> m (p + length s) = NUL \<Longrightarrow> p + length s < READ_BUFFER_SIZE \<Longrightarrow>
   cstr m p = s"
  unfolding cstr_def by (rule holds_cstr_from) auto

lemma cstr_from_len: "length (cstr_from m p n) \<le> n"
  by (induction n arbitrary: p) auto

lemma cstr_from_holds: "holds m p (cstr_from m p n)"
  by (induction n arbitrary: p) auto

lemma NUL_notin_cstr_from: "NUL \<notin> set (cstr_from m p n)"
  by (induction n arbitrary: p) auto

lemma cstr_holds: "holds m p (cstr m p)" and NUL_notin_cstr [simp]: "NUL \<notin> set (cstr m p)"
  by (auto simp: cstr_def cstr_from_holds NUL_notin_cstr_from)

lemma cstr_len: "length (cstr m p) \<le> READ_BUFFER_SIZE - p"
  unfolding cstr_def by (rule cstr_from_len)

lemma cstr_from_NUL: "m (p + k) = NUL \<Longrightarrow> length (cstr_from m p n) \<le> k"
proof (induction n arbitrary: p k)
  case 0
  then show ?case by simp
next
  case (Suc n)
  then show ?case by (cases k) auto
qed

lemma cstr_ends: "m q = NUL \<Longrightarrow> p \<le> q \<Longrightarrow> p + length (cstr m p) \<le> q"
  unfolding cstr_def using cstr_from_NUL [of m p "q - p" "READ_BUFFER_SIZE - p"] by auto

section \<open>The read loop\<close>

lemma received_simps [simp]:
  "m_read_index (received d c) = m_read_index c + length d"
  "m_read_buf (received d c) = buf_write (m_read_buf c) (m_read_index c) d"
  "m_checked_index (received d c) = m_checked_index c"
  "m_start_line (received d c) = m_start_line c"
  "m_check_stat (received d c) = m_check_stat c"
  by (simp_all add: received_def)

lemma buf_write_Nil [simp]: "buf_write m i [] = m"
  by (rule ext) (auto simp: buf_write_def)

lemma received_Nil [simp]: "received [] c = c"
  by (simp add: received_def)

lemma received_cursor:
  "received d (c\<lparr>m_checked_index := i\<rparr>) = (received d c)\<lparr>m_checked_index := i\<rparr>"
  by (simp add: received_def)

lemma received_append: "received t (received s c) = received (s @ t) c"
  by (simp add: received_def buf_write_append)

text \<open>One \<^verbatim>\<open>read()\<close> that returns true stores exactly the bytes the peer had sent.\<close>

lemma read_loop_stores:
  "read_loop segs e c = (True, c') \<Longrightarrow>
   e = Recv_again \<and> c' = received (concat segs) c \<and> m_read_index c' < READ_BUFFER_SIZE"
proof (induction segs e c rule: read_loop.induct)
  case (1 segs e c)
  show ?case
  proof (cases segs)
    case Nil
    with "1.prems" show ?thesis
      by (simp add: read_loop.simps [of "[]"] Let_def split: if_splits recv_end.splits)
  next
    case (Cons s rest)
    note IH = "1.IH" [OF refl _ Cons]
    let ?room = "READ_BUFFER_SIZE - m_read_index c"
    from "1.prems" Cons have room: "?room \<noteq> 0"
      by (simp add: read_loop.simps [of "s # rest" e c] Let_def split: if_splits)
    show ?thesis
    proof (cases "s = []")
      case True
      with "1.prems" Cons room IH(1) show ?thesis
        by (auto simp: read_loop.simps [of "[] # rest" e c])
    next
      case False
      let ?segs' = "if drop ?room s = [] then rest else drop ?room s # rest"
      from "1.prems" Cons room False have "read_loop ?segs' e (received (take ?room s) c) = (True, c')"
        by (simp add: read_loop.simps [of "s # rest" e c] Let_def received_def)
      then have "e = Recv_again \<and> c' = received (concat ?segs') (received (take ?room s) c) \<and>
          m_read_index c' < READ_BUFFER_SIZE"
        by (rule IH(2) [OF room False refl refl, folded received_def])
      moreover have "take ?room s @ concat ?segs' = concat segs"
        using Cons by (auto simp: append_assoc [symmetric] simp del: append_assoc)
      ultimately show ?thesis unfolding received_append by metis
    qed
  qed
qed

lemma received_buf_ok:
  "buf_ok c \<Longrightarrow> m_read_index c + length d \<le> READ_BUFFER_SIZE \<Longrightarrow> buf_ok (received d c)"
  by (auto simp: buf_ok_def)

section \<open>The line scanner\<close>

definition line_bytes :: "string \<Rightarrow> bool" where
  "line_bytes s = (CR \<notin> set s \<and> LF \<notin> set s)"

lemma line_bytes_Cons [simp]: "line_bytes (x # s) \<longleftrightarrow> x \<noteq> CR \<and> x \<noteq> LF \<and> line_bytes s"
  by (auto simp: line_bytes_def)

lemma line_bytes_Nil [simp]: "line_bytes []"
  by (simp add: line_bytes_def)

text \<open>Bytes that are neither CR nor LF are skipped.\<close>

lemma parse_line_skip:
  "holds (m_read_buf c) (m_checked_index c) s \<Longrightarrow> line_bytes s \<Longrightarrow>
   m_checked_index c + length s \<le> m_read_index c \<Longrightarrow>
   parse_line c = parse_line (c\<lparr>m_checked_index := m_checked_index c + length s\<rparr>)"
proof (induction s arbitrary: c)
  case Nil
  then show ?case by simp
next
  case (Cons x s)
  let ?c = "c\<lparr>m_checked_index := m_checked_index c + 1\<rparr>"
  have "parse_line c = parse_line ?c"
    using Cons.prems by (subst parse_line.simps) (simp add: Let_def)
  also have "\<dots> = parse_line (?c\<lparr>m_checked_index := m_checked_index ?c + length s\<rparr>)"
    using Cons.prems by (intro Cons.IH) auto
  finally show ?case by (simp add: add.assoc add.commute)
qed

text \<open>A complete line: its CRLF is replaced by two NULs and the cursor moves behind it.\<close>

lemma parse_line_complete:
  assumes "holds (m_read_buf c) (m_checked_index c) (s @ [CR, LF])" "line_bytes s"
    "m_checked_index c + length s + 2 \<le> m_read_index c"
  shows "parse_line c =
    (LINE_OK, c\<lparr>m_read_buf := (m_read_buf c)
         (m_checked_index c + length s := NUL, m_checked_index c + length s + 1 := NUL),
       m_checked_index := m_checked_index c + length s + 2\<rparr>)"
  using assms
  by (subst parse_line_skip [of c s]) (auto simp: parse_line.simps Let_def)

lemma parse_line_open:
  assumes "holds (m_read_buf c) (m_checked_index c) s" "line_bytes s"
    "m_checked_index c + length s = m_read_index c"
  shows "parse_line c = (LINE_OPEN, c\<lparr>m_checked_index := m_read_index c\<rparr>)"
  using assms by (subst parse_line_skip [of c s]) (auto simp: parse_line.simps Let_def)

text \<open>A line feed with no carriage return before it, or the reverse, is a bad line.\<close>

lemma parse_line_bad:
  assumes "holds (m_read_buf c) (m_checked_index c) (s @ [CR, x])" "line_bytes s" "x \<noteq> LF"
    "m_checked_index c + length s + 2 \<le> m_read_index c"
  shows "parse_line c = (LINE_BAD, c\<lparr>m_checked_index := m_checked_index c + length s\<rparr>)"
  using assms by (subst parse_line_skip [of c s]) (auto simp: parse_line.simps Let_def)

text \<open>Only the cursor moves while a line is open.\<close>

lemma parse_line_frame:
  "parse_line c = (st, c') \<Longrightarrow> st \<noteq> LINE_OK \<Longrightarrow>
   c' = c\<lparr>m_checked_index := m_checked_index c'\<rparr> \<and> m_checked_index c \<le> m_checked_index c'"
proof (induction c rule: parse_line.induct)
  case (1 c)
  from "1.prems" show ?case
    by (subst (asm) parse_line.simps) (use "1.IH" [OF refl refl] in \<open>auto simp: Let_def split: if_splits\<close>)
qed

lemma parse_line_ok_frame:
  "parse_line c = (LINE_OK, c') \<Longrightarrow>
   c' = c\<lparr>m_read_buf := m_read_buf c', m_checked_index := m_checked_index c'\<rparr> \<and>
   m_checked_index c < m_checked_index c' \<and> m_checked_index c' \<le> m_read_index c \<and>
   (\<forall>j \<ge> m_read_index c. m_read_buf c' j = m_read_buf c j)"
proof (induction c rule: parse_line.induct)
  case (1 c)
  from "1.prems" show ?case
    by (subst (asm) parse_line.simps) (use "1.IH" [OF refl refl] in \<open>auto simp: Let_def split: if_splits\<close>)
qed

text \<open>
  Resuming after a line that is not complete: scanning what has arrived, storing another segment and scanning
  on gives the same as scanning once with everything there.
\<close>

lemma parse_line_resume_aux:
  "parse_line c = (st, c') \<Longrightarrow> st \<noteq> LINE_OK \<Longrightarrow> parse_line (received d c') = parse_line (received d c)"
proof (induction c rule: parse_line.induct)
  case (1 c)
  show ?case
  proof (cases "m_checked_index c < m_read_index c \<and> m_read_buf c (m_checked_index c) \<notin> {CR, LF}")
    case True
    let ?c = "c\<lparr>m_checked_index := m_checked_index c + 1\<rparr>"
    from True "1.prems" have "parse_line ?c = (st, c')"
      by (subst (asm) parse_line.simps) (simp add: Let_def)
    then have "parse_line (received d c') = parse_line (received d ?c)"
      using True "1.IH" "1.prems" by simp
    also have "\<dots> = parse_line (received d c)"
      using True by (subst (2) parse_line.simps) (simp add: Let_def received_cursor)
    finally show ?thesis .
  next
    case False
    with "1.prems" have "c' = c"
      by (subst (asm) parse_line.simps) (auto simp: Let_def split: if_splits)
    then show ?thesis by simp
  qed
qed

section \<open>The request line\<close>

text \<open>\<open>line_at m p s\<close>: the buffer has the NUL-terminated string \<open>s\<close> at offset \<open>p\<close>.\<close>

definition line_at :: "(nat \<Rightarrow> char) \<Rightarrow> nat \<Rightarrow> string \<Rightarrow> bool" where
  "line_at m p s = (holds m p s \<and> NUL \<notin> set s \<and> m (p + length s) = NUL \<and>
     p + length s < READ_BUFFER_SIZE)"

definition no_blank :: "string \<Rightarrow> bool" where
  "no_blank s = (CHR '' '' \<notin> set s \<and> TAB \<notin> set s)"

lemma line_at_cstr: "line_at m p s \<Longrightarrow> cstr m p = s"
  by (simp add: line_at_def cstr_eqI)

lemma line_at_cut:
  "line_at m p (s @ x # t) \<Longrightarrow>
   line_at (m(p + length s := NUL)) p s \<and> line_at (m(p + length s := NUL)) (p + length s + 1) t"
  by (auto simp: line_at_def add.assoc)

lemma line_at_drop: "line_at m p (s @ t) \<Longrightarrow> line_at m (p + length s) t"
  by (auto simp: line_at_def add.assoc)

lemma line_at_upd: "line_at m p s \<Longrightarrow> q < p \<or> p + length s < q \<Longrightarrow> line_at (m(q := x)) p s"
  by (auto simp: line_at_def)

lemma strpbrk_blank_split:
  "no_blank s \<Longrightarrow> x = CHR '' '' \<or> x = TAB \<Longrightarrow> strpbrk_blank (s @ x # t) = Some (length s)"
  unfolding strpbrk_blank_def no_blank_def by (subst find_index_append) auto

lemma strpbrk_blank_None: "no_blank s \<Longrightarrow> strpbrk_blank s = None"
  by (auto simp: strpbrk_blank_def find_index_None no_blank_def)

lemma slash_not_absolute: "url = CHR ''/'' # u \<Longrightarrow> \<not> strncasecmp_eq url ''http://'' 7"
  by (simp add: strncasecmp_eq_def tolower_def isupper_def)

text \<open>What the request-line parser leaves behind on a well-formed origin-form request line.\<close>

lemma parse_request_line_origin:
  assumes line: "line_at (m_read_buf c) text (meth @ x # url @ y # ver)"
    and "no_blank meth" "no_blank url" "x = CHR '' '' \<or> x = TAB" "y = CHR '' '' \<or> y = TAB"
    and ver: "strcasecmp_eq ver ''HTTP/1.1''" and slash: "url = CHR ''/'' # u"
  shows "parse_request_line text c =
    (let p = text + length meth; q = p + 1 + length url in
     (NO_REQUEST, c\<lparr>m_read_buf := (m_read_buf c)(p := NUL, q := NUL),
        m_url := Some (p + 1), m_method := set_method meth (m_method c),
        m_version := Some (q + 1), apireq := mark_route url (apireq c),
        m_check_stat := CHECK_STATE_HEADER\<rparr>))"
proof -
  let ?p = "text + length meth"
  let ?b1 = "(m_read_buf c)(?p := NUL)"
  let ?q = "?p + 1 + length url"
  let ?b2 = "?b1(?q := NUL)"
  have m: "line_at ?b1 text meth" and r: "line_at ?b1 (?p + 1) (url @ y # ver)"
    using line_at_cut [OF line] by auto
  have u: "line_at ?b2 (?p + 1) url" and v: "line_at ?b2 (?q + 1) ver"
    using line_at_cut [OF r] by auto
  have norm: "normalize_target ?b2 (?p + 1) = Some (?p + 1)"
    using slash_not_absolute [OF slash] line_at_cstr [OF u] by (simp add: normalize_target_def)
  have "?b2 (?p + 1) = CHR ''/''"
    using u slash by (simp add: line_at_def)
  then show ?thesis
    using assms line_at_cstr [OF line] line_at_cstr [OF m] line_at_cstr [OF r] line_at_cstr [OF u]
      line_at_cstr [OF v] norm strpbrk_blank_split [of meth x] strpbrk_blank_split [of url y]
    by (simp add: parse_request_line_def Let_def fun_upd_twist)
qed

section \<open>Parsing is not affected by bytes that arrive later\<close>

lemma cstr_from_cong:
  "m (p + k) = NUL \<Longrightarrow> (\<And>j. j \<le> k \<Longrightarrow> m' (p + j) = m (p + j)) \<Longrightarrow> cstr_from m' p n = cstr_from m p n"
proof (induction n arbitrary: p k)
  case 0
  then show ?case by simp
next
  case (Suc n)
  have e: "m' p = m p" using Suc.prems(2) [of 0] by simp
  show ?case
  proof (cases k)
    case 0
    with Suc.prems e show ?thesis by simp
  next
    case (Suc k')
    with Suc.prems have "cstr_from m' (Suc p) n = cstr_from m (Suc p) n"
      by (intro Suc.IH [of "Suc p" k']) (auto simp: Suc_le_mono dest: spec [of _ "Suc _"], metis add_Suc_right Suc_le_mono)
    with e show ?thesis by simp
  qed
qed

lemma cstr_buf_write:
  "m q = NUL \<Longrightarrow> p \<le> q \<Longrightarrow> q < i \<Longrightarrow> cstr (buf_write m i d) p = cstr m p"
  unfolding cstr_def by (rule cstr_from_cong [of m p "q - p"]) auto

lemma buf_write_upd: "j < i \<Longrightarrow> (buf_write m i d)(j := x) = buf_write (m(j := x)) i d"
  by (rule ext) (auto simp: buf_write_def)

lemma received_upd:
  "received d (c\<lparr>m_url := u\<rparr>) = (received d c)\<lparr>m_url := u\<rparr>"
  "received d (c\<lparr>m_version := u\<rparr>) = (received d c)\<lparr>m_version := u\<rparr>"
  "received d (c\<lparr>m_method := m\<rparr>) = (received d c)\<lparr>m_method := m\<rparr>"
  "received d (c\<lparr>apireq := a\<rparr>) = (received d c)\<lparr>apireq := a\<rparr>"
  "received d (c\<lparr>m_check_stat := s\<rparr>) = (received d c)\<lparr>m_check_stat := s\<rparr>"
  "received d (c\<lparr>m_linger := l\<rparr>) = (received d c)\<lparr>m_linger := l\<rparr>"
  "received d (c\<lparr>m_content_length := n\<rparr>) = (received d c)\<lparr>m_content_length := n\<rparr>"
  "received d (c\<lparr>m_host := h\<rparr>) = (received d c)\<lparr>m_host := h\<rparr>"
  "received d (c\<lparr>token := t\<rparr>) = (received d c)\<lparr>token := t\<rparr>"
  "received d (c\<lparr>m_start_line := i\<rparr>) = (received d c)\<lparr>m_start_line := i\<rparr>"
  by (simp_all add: received_def)

lemma received_keeps [simp]:
  "m_url (received d c) = m_url c" "m_method (received d c) = m_method c" "apireq (received d c) = apireq c"
  "m_content_length (received d c) = m_content_length c" "token (received d c) = token c"
  by (simp_all add: received_def)

text \<open>The line scanner does not look behind what it needs.\<close>

lemma parse_line_more_ok:
  "parse_line c = (LINE_OK, c') \<Longrightarrow> parse_line (received d c) = (LINE_OK, received d c')"
proof (induction c rule: parse_line.induct)
  case (1 c)
  let ?i = "m_checked_index c"
  have "?i < m_read_index c"
    using "1.prems" by (subst (asm) parse_line.simps) (auto simp: Let_def split: if_splits)
  show ?case
  proof (cases "m_read_buf c ?i \<in> {CR, LF}")
    case False
    let ?c = "c\<lparr>m_checked_index := ?i + 1\<rparr>"
    from False "1.prems" \<open>?i < m_read_index c\<close> have "parse_line ?c = (LINE_OK, c')"
      by (subst (asm) parse_line.simps) (simp add: Let_def)
    with "1.IH" False \<open>?i < m_read_index c\<close> have "parse_line (received d ?c) = (LINE_OK, received d c')"
      by simp
    moreover have "parse_line (received d c) = parse_line (received d ?c)"
      using False \<open>?i < m_read_index c\<close> by (subst parse_line.simps) (simp add: Let_def received_cursor)
    ultimately show ?thesis by simp
  next
    case True
    with "1.prems" \<open>?i < m_read_index c\<close> show ?thesis
      by (subst (asm) parse_line.simps, subst parse_line.simps)
         (auto simp: Let_def received_def buf_write_upd split: if_splits)
  qed
qed

lemma strncasecmp_len: "strncasecmp_eq s t n \<Longrightarrow> n \<le> length t \<Longrightarrow> n \<le> length s"
  unfolding strncasecmp_eq_def by (metis length_map length_take min.absorb_iff2 min.cobounded1 min.commute)

lemma strpbrk_less: "strpbrk_blank s = Some i \<Longrightarrow> i < length s"
  unfolding strpbrk_blank_def by (drule find_index_Some_less) simp

text \<open>A request line or header line that ends before the received data ends is parsed alike with more data behind it.\<close>

lemma parse_request_line_more:
  assumes q: "m_read_buf c q = NUL" "text \<le> q" "q < m_read_index c"
  shows "parse_request_line text (received d c) =
    (fst (parse_request_line text c), received d (snd (parse_request_line text c)))"
proof -
  let ?b = "m_read_buf c" and ?r = "m_read_index c"
  have s0: "cstr (buf_write ?b ?r d) text = cstr ?b text" by (rule cstr_buf_write) (use q in auto)
  show ?thesis
  proof (cases "strpbrk_blank (cstr ?b text)")
    case None
    then show ?thesis by (simp add: parse_request_line_def s0 received_upd)
  next
    case (Some i)
    then have "text + i < q" using cstr_ends [of ?b q "text", OF q(1,2)] strpbrk_less by fastforce
    define b1 where "b1 = ?b(text + i := NUL)"
    define url where "url = Suc (text + i)"
    have q1: "b1 q = NUL" "url \<le> q" using q(1) \<open>text + i < q\<close> by (auto simp: b1_def url_def)
    have w1: "(buf_write ?b ?r d)(text + i := NUL) = buf_write b1 ?r d"
      using \<open>text + i < q\<close> q(3) by (simp add: b1_def buf_write_upd)
    have s1: "cstr (buf_write b1 ?r d) text = cstr b1 text" "cstr (buf_write b1 ?r d) url = cstr b1 url"
      using q1 q by (auto intro!: cstr_buf_write)
    show ?thesis
    proof (cases "strpbrk_blank (cstr b1 url)")
      case None
      with Some show ?thesis
        by (simp add: parse_request_line_def s0 s1 w1 Let_def b1_def [symmetric] url_def [symmetric] received_def)
    next
      case (Some k)
      then have "url + k < q" using cstr_ends [of b1 q url, OF q1] strpbrk_less by fastforce
      define b2 where "b2 = b1(url + k := NUL)"
      have q2: "b2 q = NUL" "Suc (url + k) \<le> q" using q1 \<open>url + k < q\<close> by (auto simp: b2_def)
      have w2: "(buf_write b1 ?r d)(url + k := NUL) = buf_write b2 ?r d"
        using \<open>url + k < q\<close> q(3) by (simp add: b2_def buf_write_upd)
      have s2: "cstr (buf_write b2 ?r d) url = cstr b2 url"
        "cstr (buf_write b2 ?r d) (Suc (url + k)) = cstr b2 (Suc (url + k))"
        using q2 q1 q by (auto intro!: cstr_buf_write)
      have n2: "normalize_target (buf_write b2 ?r d) url = normalize_target b2 url"
      proof (cases "strncasecmp_eq (cstr b2 url) ''http://'' 7")
        case True
        then have "url + 7 \<le> q" using strncasecmp_len [OF True] cstr_ends [of b2 q url, OF q2(1) q1(2)] by simp
        then have "cstr (buf_write b2 ?r d) (url + 7) = cstr b2 (url + 7)"
          by (rule cstr_buf_write [of b2 q, OF q2(1) _ q(3)])
        with s2 show ?thesis by (simp add: normalize_target_def)
      qed (simp add: normalize_target_def s2)
      have u2: "buf_write b2 ?r d u = b2 u" if "normalize_target b2 url = Some u" for u
      proof -
        have "u \<le> q"
        proof (cases "strncasecmp_eq (cstr b2 url) ''http://'' 7")
          case True
          then have "url + 7 \<le> q" using strncasecmp_len [OF True] cstr_ends [of b2 q url, OF q2(1) q1(2)] by simp
          with True that cstr_ends [of b2 q "url + 7", OF q2(1)] show ?thesis
            by (auto simp: normalize_target_def strchr_def dest!: find_index_Some_less)
        qed (use that q1 in \<open>simp add: normalize_target_def\<close>)
        with q(3) show ?thesis by simp
      qed
      from Some \<open>strpbrk_blank (cstr ?b text) = Some i\<close> show ?thesis
        by (auto simp: parse_request_line_def s0 s1 w1 s2 w2 n2 u2 Let_def b1_def [symmetric]
            url_def [symmetric] b2_def [symmetric] received_def split: option.splits)
    qed
  qed
qed

lemma parse_header_field_more:
  assumes q: "m_read_buf c q = NUL" "text \<le> q" "q < m_read_index c"
  shows "parse_header_field text (received d c) = received d (parse_header_field text c)"
proof -
  let ?b = "m_read_buf c" and ?r = "m_read_index c"
  have s: "cstr (buf_write ?b ?r d) p = cstr ?b p" if "p \<le> q" for p
    by (rule cstr_buf_write [of ?b q, OF q(1) that q(3)])
  have v: "cstr (buf_write ?b ?r d) (text + n) = cstr ?b (text + n)"
    "cstr (buf_write ?b ?r d) (text + n + strspn_blank (cstr ?b (text + n))) =
     cstr ?b (text + n + strspn_blank (cstr ?b (text + n)))"
    if "strncasecmp_eq (cstr ?b text) h n" "n \<le> length h" for n h
  proof -
    have "text + n \<le> q"
      using strncasecmp_len [OF that] cstr_ends [of ?b q "text", OF q(1,2)] by simp
    then show "cstr (buf_write ?b ?r d) (text + n) = cstr ?b (text + n)" by (rule s)
    have "strspn_blank t \<le> length t" for t by (simp add: strspn_blank_def length_takeWhile_le)
    then have "text + n + strspn_blank (cstr ?b (text + n)) \<le> q"
      using cstr_ends [of ?b q "text + n", OF q(1) \<open>text + n \<le> q\<close>] by (meson add_left_mono le_trans)
    then show "cstr (buf_write ?b ?r d) (text + n + strspn_blank (cstr ?b (text + n))) =
      cstr ?b (text + n + strspn_blank (cstr ?b (text + n)))" by (rule s)
  qed
  note v11 = v [of "''Connection:''" 11] and v15 = v [of "''Content-Length:''" 15]
    and v5 = v [of "''Host:''" 5] and v14 = v [of "''Authorization:''" 14]
  show ?thesis
    using s [OF q(2)] v11 v15 v5 v14
    by (simp add: parse_header_field_def Let_def received_upd)
qed

text \<open>What a good line leaves: a NUL right before the cursor, behind the start of the line.\<close>

lemma parse_line_ok_nul:
  "parse_line c = (LINE_OK, c') \<Longrightarrow> m_read_buf c' (m_checked_index c' - 1) = NUL"
proof (induction c rule: parse_line.induct)
  case (1 c)
  from "1.prems" show ?case
    by (subst (asm) parse_line.simps) (use "1.IH" [OF refl refl] in \<open>auto simp: Let_def split: if_splits\<close>)
qed

lemma parse_line_ok_fields:
  assumes "parse_line c = (LINE_OK, c')"
  shows "m_start_line c' = m_start_line c" "m_read_index c' = m_read_index c" "m_check_stat c' = m_check_stat c"
    "m_checked_index c < m_checked_index c'" "m_checked_index c' \<le> m_read_index c"
    "j \<ge> m_read_index c \<Longrightarrow> m_read_buf c' j = m_read_buf c j"
proof -
  define e where "e = c\<lparr>m_read_buf := m_read_buf c', m_checked_index := m_checked_index c'\<rparr>"
  from parse_line_ok_frame [OF assms] have ce: "c' = e" unfolding e_def by blast
  then have "m_start_line c' = m_start_line e" "m_read_index c' = m_read_index e" "m_check_stat c' = m_check_stat e"
    by (rule arg_cong)+
  then show "m_start_line c' = m_start_line c" "m_read_index c' = m_read_index c" "m_check_stat c' = m_check_stat c"
    by (simp_all add: e_def)
qed (use parse_line_ok_frame [OF assms] in auto)

lemma parse_line_open_bound:
  "parse_line c = (st, c') \<Longrightarrow> st \<noteq> LINE_OK \<Longrightarrow> m_checked_index c \<le> m_read_index c \<Longrightarrow>
   m_checked_index c' \<le> m_read_index c"
proof (induction c rule: parse_line.induct)
  case (1 c)
  from "1.prems" show ?case
    by (subst (asm) parse_line.simps) (use "1.IH" [OF refl refl] in \<open>auto simp: Let_def split: if_splits\<close>)
qed

lemma parse_line_open_fields:
  assumes "parse_line c = (st, c')" "st \<noteq> LINE_OK"
  shows "m_start_line c' = m_start_line c" "m_read_index c' = m_read_index c" "m_check_stat c' = m_check_stat c"
    "m_read_buf c' = m_read_buf c" "m_checked_index c \<le> m_checked_index c'"
proof -
  define e where "e = c\<lparr>m_checked_index := m_checked_index c'\<rparr>"
  from parse_line_frame [OF assms] have ce: "c' = e" unfolding e_def by blast
  then have "m_start_line c' = m_start_line e" "m_read_index c' = m_read_index e"
    "m_check_stat c' = m_check_stat e" "m_read_buf c' = m_read_buf e"
    by (rule arg_cong)+
  then show "m_start_line c' = m_start_line c" "m_read_index c' = m_read_index c"
    "m_check_stat c' = m_check_stat c" "m_read_buf c' = m_read_buf c"
    by (simp_all add: e_def)
qed (use parse_line_frame [OF assms] in auto)

lemma parse_request_line_zero:
  assumes "\<forall>j \<ge> n. m_read_buf c j = NUL"
  shows "\<forall>j \<ge> n. m_read_buf (snd (parse_request_line text c)) j = NUL"
  using assms by (auto simp: parse_request_line_def Let_def split: option.splits)

lemma read_loop_complete:
  "e = Recv_again \<Longrightarrow> m_read_index c + length (concat segs) < READ_BUFFER_SIZE \<Longrightarrow>
   read_loop segs e c = (True, received (concat segs) c)"
proof (induction segs arbitrary: c)
  case Nil
  then show ?case by (simp add: read_loop.simps)
next
  case (Cons s segs)
  show ?case
  proof (cases "s = []")
    case True
    with Cons show ?thesis by (simp add: read_loop.simps [of "[] # segs"])
  next
    case False
    have fits: "take (READ_BUFFER_SIZE - m_read_index c) s = s" "drop (READ_BUFFER_SIZE - m_read_index c) s = []"
      using Cons.prems by auto
    have "read_loop (s # segs) e c = read_loop segs e (received s c)"
      using False Cons.prems fits by (simp add: read_loop.simps [of "s # segs"] Let_def received_def)
    also have "\<dots> = (True, received (concat segs) (received s c))"
      using Cons.prems by (intro Cons.IH) auto
    finally show ?thesis by (simp add: received_append)
  qed
qed

section \<open>Correctness\<close>

text \<open>
  C32: \<^verbatim>\<open>read()\<close> returns true exactly when the socket ran dry with \<^verbatim>\<open>EAGAIN\<close> before the buffer was full;
  then the bytes stored are exactly the bytes the peer sent, in order, however they were split into
  segments, and at least one byte of the buffer stays free.
\<close>

theorem read_stores_segments:
  "read segs e c = (True, c') \<longleftrightarrow>
     e = Recv_again \<and> m_read_index c + length (concat segs) < READ_BUFFER_SIZE \<and>
     c' = received (concat segs) c"
proof
  assume r: "read segs e c = (True, c')"
  then have "read_loop segs e c = (True, c')"
    by (auto simp: read_def split: if_splits)
  from read_loop_stores [OF this] show "e = Recv_again \<and>
      m_read_index c + length (concat segs) < READ_BUFFER_SIZE \<and> c' = received (concat segs) c"
    by auto
qed (use read_loop_complete [of e c segs] in \<open>auto simp: read_def\<close>)

text \<open>
  The line scanner can stop at any byte: scanning what has arrived, storing another segment and
  scanning on gives the status, buffer and cursor of one scan over all the bytes.
\<close>

theorem line_scan_resumes:
  assumes "parse_line c = (st, c')" "st \<noteq> LINE_OK"
  shows "parse_line (received d c') = parse_line (received d c)"
  by (rule parse_line_resume_aux [OF assms])

text \<open>A connection as \<^const>\<open>init\<close> leaves it.\<close>

definition new_conn :: http_conn where
  "new_conn = init \<lparr>m_sockfd = 5, m_read_buf = (\<lambda>_. NUL), m_read_index = 0, m_checked_index = 0,
     m_start_line = 0, m_check_stat = CHECK_STATE_REQUESTLINE, m_method = GET, m_url = None,
     m_version = None, m_host = None, m_content_length = 0, m_linger = True, token = '''',
     json_res = '''', apireq = 0, m_write_buf = (\<lambda>_. NUL), m_write_index = 0, m_iv0 = '''',
     m_iv1 = '''', m_iv_count = 0\<rparr>"

lemma new_conn_simps [simp]:
  "m_read_buf new_conn = (\<lambda>_. NUL)" "m_read_index new_conn = 0" "m_checked_index new_conn = 0"
  "m_start_line new_conn = 0" "m_check_stat new_conn = CHECK_STATE_REQUESTLINE" "m_method new_conn = GET"
  "apireq new_conn = 0" "m_sockfd new_conn = 5" "m_write_index new_conn = 0"
  by (simp_all add: new_conn_def init_def)

text \<open>
  A complete line. When the unscanned bytes start with a line (no CR, LF or NUL in it) and its
  CRLF, the scanner reports it, the C string at the start of the scan is that line without its
  terminator, and the cursor stands behind the CRLF.
\<close>

theorem line_scan_splits:
  assumes "holds (m_read_buf c) (m_checked_index c) (s @ [CR, LF])" "line_bytes s" "NUL \<notin> set s"
    "m_checked_index c + length s + 2 \<le> m_read_index c" "m_read_index c \<le> READ_BUFFER_SIZE"
  shows "\<exists>c'. parse_line c = (LINE_OK, c') \<and> cstr (m_read_buf c') (m_checked_index c) = s \<and>
    m_checked_index c' = m_checked_index c + length s + 2 \<and>
    (\<forall>j. j < m_checked_index c \<or> m_checked_index c' \<le> j \<longrightarrow> m_read_buf c' j = m_read_buf c j)"
proof -
  let ?b = "(m_read_buf c)(m_checked_index c + length s := NUL, m_checked_index c + length s + 1 := NUL)"
  have "cstr ?b (m_checked_index c) = s"
    by (rule cstr_eqI) (use assms in auto)
  then show ?thesis
    using parse_line_complete [OF assms(1,2,4)] by auto
qed

text \<open>
  The request line. On a NUL-terminated line \<open>method SP target SP version\<close> with an origin-form
  target and version HTTP/1.1 (any case) the parser asks for headers, recognises the method, marks the
  route of the target and leaves \<^verbatim>\<open>m_url\<close> pointing at the target as a C string.
\<close>

theorem request_line_parsed:
  assumes "line_at (m_read_buf c) text (meth @ [CHR '' ''] @ url @ [CHR '' ''] @ ver)"
    "no_blank meth" "no_blank url" "strcasecmp_eq ver ''HTTP/1.1''" "url = CHR ''/'' # u"
  shows "\<exists>c' p. parse_request_line text c = (NO_REQUEST, c') \<and> m_check_stat c' = CHECK_STATE_HEADER \<and>
    m_method c' = set_method meth (m_method c) \<and> apireq c' = mark_route url (apireq c) \<and>
    m_url c' = Some p \<and> cstr (m_read_buf c') p = url"
proof -
  let ?p = "text + length meth" and ?q = "text + length meth + 1 + length url"
  have line: "line_at (m_read_buf c) text (meth @ CHR '' '' # url @ CHR '' '' # ver)" using assms(1) by simp
  have "line_at ((m_read_buf c)(?p := NUL)) (?p + 1) (url @ CHR '' '' # ver)"
    using line_at_cut [OF line] by simp
  from line_at_cut [OF this] have "cstr ((m_read_buf c)(?p := NUL, ?q := NUL)) (?p + 1) = url"
    by (simp add: line_at_cstr)
  with parse_request_line_origin [OF line assms(2,3) _ _ assms(4,5)] show ?thesis
    by (auto simp: Let_def)
qed

end
