(* ===== verification/Http_Handlers.thy ===== *)
theory Http_Handlers
  imports Http_Request User_Service Resource_Service
begin

text \<open>
  The route handlers of \<^verbatim>\<open>src/src/network/http_conn.cpp\<close>. A handler runs on a connection and the
  world; it returns a result code, or the exception that leaves it, with the connection as it is at
  that point.
\<close>

section \<open>Shared pieces\<close>

type_synonym ('db, 'rd, 'ob) handled = "('db, 'rd, 'ob, (exn + HTTP_CODE) \<times> http_conn) action"

definition log_request_error :: "string \<Rightarrow> string \<Rightarrow> ('db, 'rd, 'ob, unit) action" where
  "log_request_error route reason = log ERROR (route @ '' failed: '' @ reason)"

definition json_error_message :: "('db, 'rd, 'ob) externals \<Rightarrow> json \<Rightarrow> exn + string" where
  "json_error_message E response =
     (if \<not> contains response ''error'' then Inr ''unknown error''
      else if is_string (member response ''error'') then get_string (member response ''error'')
      else json_dump E (member response ''error''))"

definition log_service_error :: "('db, 'rd, 'ob) externals \<Rightarrow> string \<Rightarrow> json \<Rightarrow> ('db, 'rd, 'ob, exn + unit) action" where
  "log_service_error E route response =
     (case json_error_message E response of
        Inl e \<Rightarrow> State_Monad.return (Inl e)
      | Inr m \<Rightarrow> do { log_request_error route m; State_Monad.return (Inr ()) })"

text \<open>\<^verbatim>\<open>json_res = text; return code;\<close> and an exception that leaves the handler.\<close>

definition reply :: "HTTP_CODE \<Rightarrow> http_conn \<Rightarrow> ('db, 'rd, 'ob) handled" where
  "reply code c = State_Monad.return (Inr code, c)"

definition throw :: "exn \<Rightarrow> http_conn \<Rightarrow> ('db, 'rd, 'ob) handled" where
  "throw e c = State_Monad.return (Inl e, c)"

definition error_text :: "string \<Rightarrow> string" where
  "error_text m = ''{\"error\":\"'' @ m @ ''\"}''"

text \<open>The four lines that open every authenticated handler.\<close>

definition authenticated :: "('db, 'rd, 'ob) externals \<Rightarrow> http_conn \<Rightarrow> (int \<Rightarrow> ('db, 'rd, 'ob) handled) \<Rightarrow>
    ('db, 'rd, 'ob) handled" where
  "authenticated E c body = do {
     user_id \<leftarrow> get_user_id_from_token E (token c);
     (case user_id of
        None \<Rightarrow> do {
          log ERROR ''unauthorized'';
          reply FORBIDDEN_REQUEST (c\<lparr>json_res := error_text ''unauthorized''\<rparr>) }
      | Some u \<Rightarrow> body u)
   }"

text \<open>A rejected request: the JSON text of the error, the log line and the code.\<close>

definition reject :: "string \<Rightarrow> string \<Rightarrow> string \<Rightarrow> HTTP_CODE \<Rightarrow> http_conn \<Rightarrow> ('db, 'rd, 'ob) handled" where
  "reject route answer_text reason code c = do {
     log_request_error route reason;
     reply code (c\<lparr>json_res := error_text answer_text\<rparr>) }"

text \<open>\<^verbatim>\<open>json::parse(body)\<close> with its two \<^verbatim>\<open>catch\<close> clauses.\<close>

definition with_body :: "('db, 'rd, 'ob) externals \<Rightarrow> string \<Rightarrow> string \<Rightarrow> http_conn \<Rightarrow>
    (json \<Rightarrow> ('db, 'rd, 'ob) handled) \<Rightarrow> ('db, 'rd, 'ob) handled" where
  "with_body E route body c k =
     (case json_parse E body of
        Inr j \<Rightarrow> k j
      | Inl (Parse_error m) \<Rightarrow>
          reject route ''invalid JSON format'' (''invalid JSON format: '' @ m) BAD_REQUEST c
      | Inl _ \<Rightarrow> reject route ''internal error'' ''unexpected JSON parse error'' INTERNAL_ERROR c)"

text \<open>The ending every service call has: print the answer, log an error, choose the code.\<close>

definition finish :: "('db, 'rd, 'ob) externals \<Rightarrow> string \<Rightarrow> HTTP_CODE \<Rightarrow> http_conn \<Rightarrow> json \<Rightarrow>
    ('db, 'rd, 'ob) handled" where
  "finish E route code c res =
     (case json_dump E res of
        Inl e \<Rightarrow> throw e c
      | Inr text \<Rightarrow>
          let c' = c\<lparr>json_res := text\<rparr> in
          if contains res ''error'' then do {
            logged \<leftarrow> log_service_error E route res;
            (case logged of
               Inl e \<Rightarrow> throw e c'
             | Inr _ \<Rightarrow> reply BAD_REQUEST c') }
          else reply code c')"

definition has_string :: "json \<Rightarrow> string \<Rightarrow> bool" where
  "has_string j k = (contains j k \<and> is_string (member j k))"

text \<open>\<^verbatim>\<open>j[k]\<close> of a member known to be a string.\<close>

definition string_member :: "json \<Rightarrow> string \<Rightarrow> string" where
  "string_member j k = (case get_string (member j k) of Inr s \<Rightarrow> s | Inl _ \<Rightarrow> '''')"

definition digits :: "string \<Rightarrow> bool" where
  "digits value = (value \<noteq> '''' \<and> list_all isdigit value)"

section \<open>Accounts\<close>

definition handle_register :: "('db, 'rd, 'ob) externals \<Rightarrow> nat \<Rightarrow> http_conn \<Rightarrow> ('db, 'rd, 'ob) handled" where
  "handle_register E text c = do {
     let body = cstr (m_read_buf c) text;
     State_Monad.update (\<lambda>w. w\<lparr>console := console w @ ''Body: '' @ body @ [LF]\<rparr>);
     log INFO (''POST /api/register body='' @ body);
     with_body E ''POST /api/register'' body c (\<lambda>j.
       if \<not> (has_string j ''name'' \<and> has_string j ''email'' \<and> has_string j ''password'')
       then reject ''POST /api/register'' ''missing fields'' ''missing fields'' BAD_REQUEST c
       else do {
         res \<leftarrow> create_user E \<lparr>ui_id = 0, ui_name = string_member j ''name'',
                  ui_email = string_member j ''email'', ui_password = string_member j ''password''\<rparr>;
         finish E ''POST /api/register'' ADD_RESOURCE c res })
   }"

definition handle_login :: "('db, 'rd, 'ob) externals \<Rightarrow> nat \<Rightarrow> http_conn \<Rightarrow> ('db, 'rd, 'ob) handled" where
  "handle_login E text c = do {
     let body = cstr (m_read_buf c) text;
     log INFO (''POST /api/login body='' @ body);
     with_body E ''POST /api/login'' body c (\<lambda>j.
       if \<not> (has_string j ''email'' \<and> has_string j ''password'')
       then do {
         log ERROR (error_text ''missing fields'');
         reply BAD_REQUEST (c\<lparr>json_res := error_text ''missing fields''\<rparr>) }
       else do {
         res \<leftarrow> login E \<lparr>ui_id = 0, ui_name = '''', ui_email = string_member j ''email'',
                  ui_password = string_member j ''password''\<rparr>;
         finish E ''POST /api/login'' GET_RESOURCE c res })
   }"

definition handle_logout :: "('db, 'rd, 'ob) externals \<Rightarrow> http_conn \<Rightarrow> ('db, 'rd, 'ob) handled" where
  "handle_logout E c =
     authenticated E c (\<lambda>_. do {
       res \<leftarrow> logout (token c);
       (case json_dump E res of
          Inl e \<Rightarrow> throw e c
        | Inr text \<Rightarrow>
            let c' = c\<lparr>json_res := text\<rparr> in
            if contains res ''error'' then
              (case get_string (member res ''error'') of
                 Inl e \<Rightarrow> throw e c'
               | Inr m \<Rightarrow> do { log ERROR m; reply BAD_REQUEST c' })
            else reply DELETE_RESOURCE c')
     })"

section \<open>Resources\<close>

definition handle_get_resources :: "('db, 'rd, 'ob) externals \<Rightarrow> http_conn \<Rightarrow> ('db, 'rd, 'ob) handled" where
  "handle_get_resources E c =
     authenticated E c (\<lambda>user_id.
       let (query, key, value, c1) = split_target c in
       if query \<and> (key \<noteq> ''id'' \<or> \<not> digits value)
       then reject ''GET /api/resources'' ''invalid parameter'' ''invalid id parameter'' BAD_REQUEST c1
       else do {
         log INFO ''GET /api/resources'';
         res \<leftarrow> (if key = ''id'' then get_resource E user_id (atoi (c_str value))
                  else get_resources E user_id);
         finish E ''GET /api/resources'' GET_RESOURCE c1 res })"

definition handle_delete_resource :: "('db, 'rd, 'ob) externals \<Rightarrow> http_conn \<Rightarrow> ('db, 'rd, 'ob) handled" where
  "handle_delete_resource E c =
     authenticated E c (\<lambda>user_id.
       let (query, key, value, c1) = split_target c in
       if key \<noteq> ''id'' \<or> \<not> digits value
       then reject ''DELETE /api/resources'' ''invalid parameter'' ''invalid id parameter'' BAD_REQUEST c1
       else do {
         log INFO (''DELETE /api/resource?id='' @ value);
         res \<leftarrow> delete_resource E user_id (atoi (c_str value));
         finish E ''DELETE /api/resources'' DELETE_RESOURCE c1 res })"

definition handle_post_resource :: "('db, 'rd, 'ob) externals \<Rightarrow> nat \<Rightarrow> http_conn \<Rightarrow> ('db, 'rd, 'ob) handled" where
  "handle_post_resource E text c =
     authenticated E c (\<lambda>user_id. do {
       let body = cstr (m_read_buf c) text;
       log INFO (''POST /api/resource body='' @ body);
       with_body E ''POST /api/resources'' body c (\<lambda>j.
         if contains j ''title'' \<and> \<not> is_string (member j ''title'')
         then reject ''POST /api/resources'' ''invalid title'' ''invalid title'' BAD_REQUEST c
         else if contains j ''content'' \<and> \<not> is_string (member j ''content'')
         then reject ''POST /api/resources'' ''invalid content'' ''invalid content'' BAD_REQUEST c
         else if contains j ''is_file'' \<and> \<not> is_boolean (member j ''is_file'')
         then reject ''POST /api/resources'' ''invalid is_file'' ''invalid is_file'' BAD_REQUEST c
         else
           (case (string_or_empty j ''title'', string_or_empty j ''content'',
                  if contains j ''is_file'' then get_bool (member j ''is_file'') else Inr False) of
              (Inr title, Inr content, Inr is_file) \<Rightarrow> do {
                res \<leftarrow> create_resource E \<lparr>ri_id = 0, ri_user_id = user_id, ri_title = title,
                         ri_content = content, ri_is_file = is_file\<rparr>;
                finish E ''POST /api/resources'' ADD_RESOURCE c res }
            | _ \<Rightarrow> throw type_error c))
     })"

definition handle_put_resource :: "('db, 'rd, 'ob) externals \<Rightarrow> nat \<Rightarrow> http_conn \<Rightarrow> ('db, 'rd, 'ob) handled" where
  "handle_put_resource E text c =
     authenticated E c (\<lambda>user_id. do {
       let body = cstr (m_read_buf c) text;
       log INFO (''PUT /api/resource body='' @ body);
       with_body E ''PUT /api/resources'' body c (\<lambda>j.
         if \<not> (contains j ''id'' \<and> is_number_integer (member j ''id''))
         then reject ''PUT /api/resources'' ''invalid id'' ''invalid id'' BAD_REQUEST c
         else
           (case (get_int (member j ''id''), string_or_empty j ''title'', string_or_empty j ''content'') of
              (Inr rid, Inr title, Inr content) \<Rightarrow> do {
                res \<leftarrow> update_resource E \<lparr>ri_id = rid, ri_user_id = user_id, ri_title = title,
                         ri_content = content, ri_is_file = False\<rparr>;
                finish E ''PUT /api/resources'' UPDATE_RESOURCE c res }
            | _ \<Rightarrow> throw type_error c))
     })"

section \<open>Files and health\<close>

definition handle_create_upload_url :: "('db, 'rd, 'ob) externals \<Rightarrow> nat \<Rightarrow> http_conn \<Rightarrow> ('db, 'rd, 'ob) handled" where
  "handle_create_upload_url E text c =
     authenticated E c (\<lambda>user_id. do {
       let body = cstr (m_read_buf c) text;
       log INFO (''POST /api/files/upload-url body='' @ body);
       with_body E ''POST /api/files/upload-url'' body c (\<lambda>j.
         if \<not> (has_string j ''filename'' \<and> has_string j ''content_type'')
         then reject ''POST /api/files/upload-url'' ''missing fields'' ''missing fields'' BAD_REQUEST c
         else do {
           res \<leftarrow> create_upload_url E user_id (string_member j ''filename'') (string_member j ''content_type'');
           finish E ''POST /api/files/upload-url'' GET_RESOURCE c res })
     })"

definition handle_create_download_url :: "('db, 'rd, 'ob) externals \<Rightarrow> http_conn \<Rightarrow> ('db, 'rd, 'ob) handled" where
  "handle_create_download_url E c =
     authenticated E c (\<lambda>user_id.
       let (query, key, value, c1) = split_target c in
       if key \<noteq> ''resource_id'' \<or> \<not> digits value
       then reject ''GET /api/files/download-url'' ''invalid parameter'' ''invalid resource_id parameter''
              BAD_REQUEST c1
       else do {
         res \<leftarrow> get_file_download_url E user_id (atoi (c_str value));
         finish E ''GET /api/files/download-url'' GET_RESOURCE c1 res })"

definition handle_health :: "('db, 'rd, 'ob) externals \<Rightarrow> http_conn \<Rightarrow> ('db, 'rd, 'ob) handled" where
  "handle_health E c =
     (case json_dump E (status_json ''ok'') of
        Inl e \<Rightarrow> throw e c
      | Inr text \<Rightarrow> reply GET_RESOURCE (c\<lparr>json_res := text\<rparr>))"

end
