(* ===== verification/Http_Response.thy ===== *)
theory Http_Response
  imports Http_Request
begin

text \<open>
  The response half of \<^verbatim>\<open>src/src/network/http_conn.cpp\<close>: the bounded formatter \<^verbatim>\<open>add_response\<close>,
  the header writers over it and \<^verbatim>\<open>process_write\<close>, which turns a result code into the buffers that
  \<^verbatim>\<open>writev\<close> sends.
\<close>

section \<open>The response buffer\<close>

text \<open>
  \<^verbatim>\<open>vsnprintf(m_write_buf + i, n, ...)\<close> with the formatted text \<open>s\<close>: at most \<open>n - 1\<close> bytes and a
  NUL are stored, nothing for \<open>n = 0\<close>.
\<close>

definition vsnprintf_store :: "(nat \<Rightarrow> char) \<Rightarrow> nat \<Rightarrow> nat \<Rightarrow> string \<Rightarrow> nat \<Rightarrow> char" where
  "vsnprintf_store m i n s = (if n = 0 then m else buf_write m i (take (n - 1) s @ [NUL]))"

definition add_response :: "string \<Rightarrow> http_conn \<Rightarrow> bool \<times> http_conn" where
  "add_response s c =
     (if m_write_index c \<ge> WRITE_BUFFER_SIZE then (False, c)
      else
        let room = WRITE_BUFFER_SIZE - 1 - m_write_index c;
            c' = c\<lparr>m_write_buf := vsnprintf_store (m_write_buf c) (m_write_index c) room s\<rparr>
        in if length s \<ge> room then (False, c')
           else (True, c'\<lparr>m_write_index := m_write_index c + length s\<rparr>))"

definition add_status_line :: "int \<Rightarrow> string \<Rightarrow> http_conn \<Rightarrow> bool \<times> http_conn" where
  "add_status_line status title = add_response (''HTTP/1.1'' @ '' '' @ to_string status @ '' '' @ title @ [CR, LF])"

definition add_content_type :: "string \<Rightarrow> http_conn \<Rightarrow> bool \<times> http_conn" where
  "add_content_type type = add_response (''Content-Type: '' @ type @ [CR, LF])"

definition add_content_length :: "int \<Rightarrow> http_conn \<Rightarrow> bool \<times> http_conn" where
  "add_content_length content_len = add_response (''Content-Length: '' @ to_string content_len @ [CR, LF])"

definition add_linger :: "http_conn \<Rightarrow> bool \<times> http_conn" where
  "add_linger c = add_response
     (''Connection: '' @ (if m_linger c then ''keep-alive'' else ''close'') @ [CR, LF]) c"

definition add_blank_line :: "http_conn \<Rightarrow> bool \<times> http_conn" where
  "add_blank_line = add_response [CR, LF]"

text \<open>The short-circuit \<^verbatim>\<open>&&\<close> of two calls.\<close>

definition and_also :: "(http_conn \<Rightarrow> bool \<times> http_conn) \<Rightarrow> (http_conn \<Rightarrow> bool \<times> http_conn) \<Rightarrow>
    http_conn \<Rightarrow> bool \<times> http_conn" where
  "and_also f g c = (let (ok, c1) = f c in if ok then g c1 else (False, c1))"

definition add_headers :: "int \<Rightarrow> string \<Rightarrow> http_conn \<Rightarrow> bool \<times> http_conn" where
  "add_headers content_len type =
     and_also (add_content_length content_len)
       (and_also (add_content_type type) (and_also add_linger add_blank_line))"

definition add_content :: "string \<Rightarrow> http_conn \<Rightarrow> bool \<times> http_conn" where
  "add_content content = add_response content"

section \<open>Responses\<close>

definition ok_200_title :: string where "ok_200_title = ''OK''"
definition error_400_title :: string where "error_400_title = ''Bad Request''"
definition error_400_form :: string where
  "error_400_form = ''Your request has bad syntax or is inherently impossible to satisfy.'' @ [LF]"
definition error_403_title :: string where "error_403_title = ''Forbidden''"
definition error_403_form :: string where
  "error_403_form = ''You do not have permission to access this resource.'' @ [LF]"
definition error_404_title :: string where "error_404_title = ''Not Found''"
definition error_404_form :: string where
  "error_404_form = ''The requested route was not found on this server.'' @ [LF]"
definition error_500_title :: string where "error_500_title = ''Internal Error''"
definition error_500_form :: string where
  "error_500_form = ''There was an unusual problem serving the request.'' @ [LF]"

text \<open>The bytes \<^verbatim>\<open>m_write_buf[0 .. m_write_index)\<close>.\<close>

definition response_bytes :: "http_conn \<Rightarrow> string" where
  "response_bytes c = map (m_write_buf c) [0..<m_write_index c]"

definition add_json_response :: "int \<Rightarrow> string \<Rightarrow> http_conn \<Rightarrow> bool \<times> http_conn" where
  "add_json_response status title c =
     (let (ok1, c1) = add_status_line status title c in
      if \<not> ok1 then (False, c1)
      else let (ok2, c2) = add_headers (to_int32 (int (length (json_res c1)))) ''application/json'' c1 in
        if \<not> ok2 then (False, c2)
        else (True, c2\<lparr>m_iv0 := response_bytes c2, m_iv1 := json_res c2, m_iv_count := 2\<rparr>))"

text \<open>A response whose body is one of the fixed texts; only the result of the last call is tested.\<close>

definition text_response :: "int \<Rightarrow> string \<Rightarrow> string \<Rightarrow> http_conn \<Rightarrow> bool \<times> http_conn" where
  "text_response status title form c =
     (let c1 = snd (add_status_line status title c);
          c2 = snd (add_headers (int (length form)) ''text'' c1);
          (ok, c3) = add_content form c2 in
      if \<not> ok then (False, c3)
      else (True, c3\<lparr>m_iv0 := response_bytes c3, m_iv_count := 1\<rparr>))"

fun process_write :: "HTTP_CODE \<Rightarrow> http_conn \<Rightarrow> bool \<times> http_conn" where
  "process_write INTERNAL_ERROR c = text_response 500 error_500_title error_500_form c"
| "process_write BAD_REQUEST c =
     (if json_res c \<noteq> '''' then add_json_response 400 error_400_title c
      else text_response 400 error_400_title error_400_form c)"
| "process_write NO_RESOURCE c = text_response 404 error_404_title error_404_form c"
| "process_write FORBIDDEN_REQUEST c = text_response 403 error_403_title error_403_form c"
| "process_write GET_RESOURCE c = add_json_response 200 ok_200_title c"
| "process_write ADD_RESOURCE c = add_json_response 200 ok_200_title c"
| "process_write UPDATE_RESOURCE c = add_json_response 200 ok_200_title c"
| "process_write DELETE_RESOURCE c = add_json_response 200 ok_200_title c"
| "process_write NO_REQUEST c = (False, c)"
| "process_write CLOSED_CONNECTION c = (False, c)"

section \<open>The bytes of a response\<close>

text \<open>The status line and header block that announce a body of \<open>n\<close> bytes.\<close>

definition response_head :: "int \<Rightarrow> string \<Rightarrow> int \<Rightarrow> string \<Rightarrow> bool \<Rightarrow> string" where
  "response_head status title n type keep =
     ''HTTP/1.1'' @ '' '' @ to_string status @ '' '' @ title @ [CR, LF] @
     ''Content-Length: '' @ to_string n @ [CR, LF] @
     ''Content-Type: '' @ type @ [CR, LF] @
     ''Connection: '' @ (if keep then ''keep-alive'' else ''close'') @ [CR, LF] @ [CR, LF]"

text \<open>What the \<^verbatim>\<open>iovec\<close> entries in use denote.\<close>

definition to_send :: "http_conn \<Rightarrow> string" where
  "to_send c = m_iv0 c @ (if m_iv_count c = 2 then m_iv1 c else [])"

text \<open>\<open>grown c s c'\<close>: \<open>c'\<close> is \<open>c\<close> with \<open>s\<close> appended to its response buffer.\<close>

definition grown :: "http_conn \<Rightarrow> string \<Rightarrow> http_conn \<Rightarrow> bool" where
  "grown c s c' = (response_bytes c' = response_bytes c @ s \<and>
     (\<exists>b. c' = c\<lparr>m_write_buf := b, m_write_index := m_write_index c + length s\<rparr>))"

lemma grown_trans:
  assumes "grown c s c1" "grown c1 t c2"
  shows "grown c (s @ t) c2"
proof -
  from assms obtain b1 b2 where b: "c1 = c\<lparr>m_write_buf := b1, m_write_index := m_write_index c + length s\<rparr>"
      "c2 = c1\<lparr>m_write_buf := b2, m_write_index := m_write_index c1 + length t\<rparr>"
    unfolding grown_def by blast
  have "c2 = c\<lparr>m_write_buf := b2, m_write_index := m_write_index c + length (s @ t)\<rparr>"
    unfolding b by (simp add: add.assoc)
  then show ?thesis
    using assms unfolding grown_def by auto
qed

lemma grown_fields:
  "grown c s c' \<Longrightarrow> m_write_index c' = m_write_index c + length s \<and> m_linger c' = m_linger c \<and>
     json_res c' = json_res c \<and> m_sockfd c' = m_sockfd c \<and> response_bytes c' = response_bytes c @ s"
  unfolding grown_def by auto

lemma add_response_fits:
  assumes "m_write_index c + length s < WRITE_BUFFER_SIZE - 1"
  shows "\<exists>c'. add_response s c = (True, c') \<and> grown c s c'"
proof -
  let ?i = "m_write_index c" and ?n = "WRITE_BUFFER_SIZE - 1 - m_write_index c"
  let ?b = "vsnprintf_store (m_write_buf c) ?i ?n s"
  have "map ?b [?i..<?i + length s] = s"
    using assms by (intro nth_equalityI) (auto simp: vsnprintf_store_def buf_write_def nth_append)
  moreover have "map ?b [0..<?i] = map (m_write_buf c) [0..<?i]"
    by (auto simp: vsnprintf_store_def)
  moreover have "[0..<?i + length s] = [0..<?i] @ [?i..<?i + length s]"
    using upt_add_eq_append [of 0 ?i "length s"] by simp
  ultimately show ?thesis
    using assms by (auto simp: add_response_def grown_def response_bytes_def Let_def)
qed

text \<open>\<open>puts f s c\<close>: the writer \<open>f\<close> succeeds on \<open>c\<close> and appends \<open>s\<close>.\<close>

definition puts :: "(http_conn \<Rightarrow> bool \<times> http_conn) \<Rightarrow> string \<Rightarrow> http_conn \<Rightarrow> bool" where
  "puts f s c = (fst (f c) \<and> grown c s (snd (f c)))"

lemma puts_response: "m_write_index c + length s < WRITE_BUFFER_SIZE - 1 \<Longrightarrow> puts (add_response s) s c"
  using add_response_fits [of c s] by (auto simp: puts_def)

lemma puts_and_also:
  "puts f s c \<Longrightarrow> (\<And>c1. grown c s c1 \<Longrightarrow> puts g t c1) \<Longrightarrow> puts (and_also f g) (s @ t) c"
  unfolding puts_def and_also_def Let_def split_def by (auto intro: grown_trans)

lemma show_nat_length: "n < 10 ^ Suc k \<Longrightarrow> length (show_nat n) \<le> Suc k"
proof (induction k arbitrary: n)
  case 0
  then show ?case by (simp add: show_nat.simps)
next
  case (Suc k)
  then have "n div 10 < 10 ^ Suc k" by (simp add: div_less_iff_less_mult mult.commute)
  with Suc.IH [of "n div 10"] show ?case by (subst show_nat.simps) auto
qed

lemma to_string_length: "int32 i \<Longrightarrow> length (to_string i) \<le> 11"
proof -
  assume "int32 i"
  then have "nat i < 10 ^ Suc 9" "nat (- i) < 10 ^ Suc 9" by (auto simp: int32_def int_bounds)
  from this [THEN show_nat_length] show ?thesis by (simp add: to_string_def)
qed

definition header_block :: "int \<Rightarrow> string \<Rightarrow> bool \<Rightarrow> string" where
  "header_block n type keep =
     (''Content-Length: '' @ to_string n @ [CR, LF]) @ (''Content-Type: '' @ type @ [CR, LF]) @
     (''Connection: '' @ (if keep then ''keep-alive'' else ''close'') @ [CR, LF]) @ [CR, LF]"

lemma header_block_length:
  "int32 n \<Longrightarrow> length (header_block n type keep) \<le> 80 + length type"
  using to_string_length [of n] by (simp add: header_block_def)

lemma puts_headers:
  assumes "m_write_index c + length (header_block n type (m_linger c)) < WRITE_BUFFER_SIZE - 1"
  shows "puts (add_headers n type) (header_block n type (m_linger c)) c"
  unfolding add_headers_def header_block_def
proof (intro puts_and_also)
  show "puts (add_content_length n) (''Content-Length: '' @ to_string n @ [CR, LF]) c"
    unfolding add_content_length_def using assms by (intro puts_response) (simp add: header_block_def)
next
  fix c1 assume 1: "grown c (''Content-Length: '' @ to_string n @ [CR, LF]) c1"
  show "puts (add_content_type type) (''Content-Type: '' @ type @ [CR, LF]) c1"
    unfolding add_content_type_def using assms grown_fields [OF 1]
    by (intro puts_response) (simp add: header_block_def)
  fix c2 assume 2: "grown c1 (''Content-Type: '' @ type @ [CR, LF]) c2"
  have "puts (add_response (''Connection: '' @ (if m_linger c2 then ''keep-alive'' else ''close'') @ [CR, LF]))
      (''Connection: '' @ (if m_linger c2 then ''keep-alive'' else ''close'') @ [CR, LF]) c2"
    using assms grown_fields [OF 1] grown_fields [OF 2] by (intro puts_response) (simp add: header_block_def)
  then show "puts add_linger (''Connection: '' @ (if m_linger c then ''keep-alive'' else ''close'') @ [CR, LF]) c2"
    using grown_fields [OF 1] grown_fields [OF 2] by (simp add: puts_def add_linger_def)
  fix c3 assume 3: "grown c2 (''Connection: '' @ (if m_linger c then ''keep-alive'' else ''close'') @ [CR, LF]) c3"
  show "puts add_blank_line [CR, LF] c3"
    unfolding add_blank_line_def using assms grown_fields [OF 1] grown_fields [OF 2] grown_fields [OF 3]
    by (intro puts_response) (simp add: header_block_def)
qed

lemma response_head_split:
  "response_head status title n type keep =
     (''HTTP/1.1'' @ '' '' @ to_string status @ '' '' @ title @ [CR, LF]) @ header_block n type keep"
  by (simp add: response_head_def header_block_def)

text \<open>A connection whose response buffer is empty, as \<^const>\<open>init\<close> leaves it.\<close>

definition fresh_response :: "http_conn \<Rightarrow> bool" where
  "fresh_response c = (m_write_index c = 0)"

lemma add_json_response_bytes:
  assumes "fresh_response c" "int32 status" "length title \<le> 100"
  shows "\<exists>c'. add_json_response status title c = (True, c') \<and>
    to_send c' = response_head status title (to_int32 (int (length (json_res c)))) ''application/json''
      (m_linger c) @ json_res c \<and> m_sockfd c' = m_sockfd c"
proof -
  let ?n = "to_int32 (int (length (json_res c)))"
  let ?l = "''HTTP/1.1'' @ '' '' @ to_string status @ '' '' @ title @ [CR, LF]"
  let ?h = "header_block ?n ''application/json'' (m_linger c)"
  have "puts (add_status_line status title) ?l c"
    unfolding add_status_line_def using assms to_string_length [of status]
    by (intro puts_response) (simp add: fresh_response_def WRITE_BUFFER_SIZE_def)
  then obtain c1 where 1: "add_status_line status title c = (True, c1)" "grown c ?l c1"
    by (auto simp: puts_def prod_eq_iff)
  note f1 = grown_fields [OF 1(2)]
  have "puts (add_headers ?n ''application/json'') ?h c1"
    using puts_headers [of c1 ?n "''application/json''"] f1 assms to_string_length [of status]
      header_block_length [of ?n "''application/json''" "m_linger c"]
    by (simp add: fresh_response_def WRITE_BUFFER_SIZE_def)
  then obtain c2 where 2: "add_headers ?n ''application/json'' c1 = (True, c2)" "grown c1 ?h c2"
    by (auto simp: puts_def prod_eq_iff)
  show ?thesis
    using 1 2 f1 grown_fields [OF 2(2)] assms(1)
    by (simp add: add_json_response_def to_send_def response_head_split fresh_response_def response_bytes_def [of c])
qed

lemma text_response_bytes:
  assumes "fresh_response c" "int32 status" "length title \<le> 100" "length form \<le> 500"
  shows "\<exists>c'. text_response status title form c = (True, c') \<and>
    to_send c' = response_head status title (int (length form)) ''text'' (m_linger c) @ form \<and>
    m_sockfd c' = m_sockfd c"
proof -
  let ?l = "''HTTP/1.1'' @ '' '' @ to_string status @ '' '' @ title @ [CR, LF]"
  let ?h = "header_block (int (length form)) ''text'' (m_linger c)"
  have h: "length ?h \<le> 84"
    using header_block_length [of "int (length form)" "''text''" "m_linger c"] assms(4)
    by (simp add: int32_def int_bounds)
  have "puts (add_status_line status title) ?l c"
    unfolding add_status_line_def using assms to_string_length [of status]
    by (intro puts_response) (simp add: fresh_response_def WRITE_BUFFER_SIZE_def)
  then obtain c1 where 1: "snd (add_status_line status title c) = c1" "grown c ?l c1"
    by (auto simp: puts_def)
  note f1 = grown_fields [OF 1(2)]
  have "puts (add_headers (int (length form)) ''text'') ?h c1"
    using puts_headers [of c1 "int (length form)" "''text''"] f1 h assms to_string_length [of status]
    by (simp add: fresh_response_def WRITE_BUFFER_SIZE_def)
  then obtain c2 where 2: "snd (add_headers (int (length form)) ''text'' c1) = c2" "grown c1 ?h c2"
    by (auto simp: puts_def)
  note f2 = grown_fields [OF 2(2)]
  have "puts (add_content form) form c2"
    unfolding add_content_def using f1 f2 h assms to_string_length [of status]
    by (intro puts_response) (simp add: fresh_response_def WRITE_BUFFER_SIZE_def)
  then obtain c3 where 3: "add_content form c2 = (True, c3)" "grown c2 form c3"
    by (auto simp: puts_def prod_eq_iff)
  show ?thesis
    using 1 2 3 f1 f2 grown_fields [OF 3(2)] assms(1)
    by (simp add: text_response_def to_send_def response_head_split fresh_response_def response_bytes_def [of c])
qed

section \<open>The answer to a result code\<close>

text \<open>Status, reason, content type and body that the API promises for each result.\<close>

fun answer :: "HTTP_CODE \<Rightarrow> string \<Rightarrow> (int \<times> string \<times> string \<times> string) option" where
  "answer INTERNAL_ERROR j = Some (500, ''Internal Error'', ''text'', error_500_form)"
| "answer BAD_REQUEST j =
     (if j = '''' then Some (400, ''Bad Request'', ''text'', error_400_form)
      else Some (400, ''Bad Request'', ''application/json'', j))"
| "answer NO_RESOURCE j = Some (404, ''Not Found'', ''text'', error_404_form)"
| "answer FORBIDDEN_REQUEST j = Some (403, ''Forbidden'', ''text'', error_403_form)"
| "answer NO_REQUEST j = None"
| "answer CLOSED_CONNECTION j = None"
| "answer _ j = Some (200, ''OK'', ''application/json'', j)"

lemma json_answer:
  assumes "fresh_response c" "int32 status" "length title \<le> 100"
  shows "fst (add_json_response status title c) \<and>
    to_send (snd (add_json_response status title c)) =
      response_head status title (to_int32 (int (length (json_res c)))) ''application/json'' (m_linger c) @ json_res c \<and>
    m_sockfd (snd (add_json_response status title c)) = m_sockfd c"
  using add_json_response_bytes [OF assms] by auto

lemma text_answer:
  assumes "fresh_response c" "int32 status" "length title \<le> 100" "length form \<le> 500"
  shows "fst (text_response status title form c) \<and>
    to_send (snd (text_response status title form c)) =
      response_head status title (to_int32 (int (length form))) ''text'' (m_linger c) @ form \<and>
    m_sockfd (snd (text_response status title form c)) = m_sockfd c"
  using text_response_bytes [OF assms] assms(4) by (auto simp: int32_def int_bounds)

lemmas answer_titles = ok_200_title_def error_400_title_def error_403_title_def error_404_title_def
  error_500_title_def

lemma form_lengths [simp]: "length error_400_form \<le> 500" "length error_403_form \<le> 500"
    "length error_404_form \<le> 500" "length error_500_form \<le> 500"
  by (simp_all add: error_400_form_def error_403_form_def error_404_form_def error_500_form_def)

lemma process_write_answer:
  assumes "fresh_response c" "answer ret (json_res c) = Some (status, title, type, body)"
  shows "fst (process_write ret c) \<and> to_send (snd (process_write ret c)) =
      response_head status title (to_int32 (int (length body))) type (m_linger c) @ body \<and>
    m_sockfd (snd (process_write ret c)) = m_sockfd c"
proof (cases ret)
  case BAD_REQUEST
  show ?thesis
  proof (cases "json_res c = ''''")
    case True
    then show ?thesis
      using assms BAD_REQUEST text_answer [of c 400 "''Bad Request''" error_400_form]
      by (auto simp: answer_titles int32_def int_bounds)
  next
    case False
    then show ?thesis
      using assms BAD_REQUEST json_answer [of c 400 "''Bad Request''"] by (auto simp: answer_titles int32_def int_bounds)
  qed
qed (use assms text_answer [of c 500 "''Internal Error''" error_500_form]
       text_answer [of c 404 "''Not Found''" error_404_form]
       text_answer [of c 403 "''Forbidden''" error_403_form] json_answer [of c 200 "''OK''"]
     in \<open>auto simp: answer_titles int32_def int_bounds\<close>)

section \<open>Correctness\<close>

text \<open>
  C27: The response. On a connection with an empty response buffer every result code that has an
  answer produces exactly the status line, the headers with the length of the body (for a body a
  32-bit length can count), and the body; the fixed 1024-byte buffer always suffices.
\<close>

theorem response_bytes_exact:
  assumes "fresh_response c" "answer ret (json_res c) = Some (status, title, type, body)"
    "int (length body) \<le> INT_MAX"
  shows "fst (process_write ret c) \<and> to_send (snd (process_write ret c)) =
    response_head status title (int (length body)) type (m_linger c) @ body"
  using process_write_answer [OF assms(1,2)] assms(3) by (simp add: int32_nonneg)

theorem response_bytes_exact_witness:
  "fst (process_write NO_RESOURCE new_conn) \<and> to_send (snd (process_write NO_RESOURCE new_conn)) =
    response_head 404 ''Not Found'' 50 ''text'' True @ error_404_form"
  using response_bytes_exact [of new_conn NO_RESOURCE 404 "''Not Found''" "''text''" error_404_form]
  by (simp add: fresh_response_def error_404_form_def int_bounds new_conn_def init_def)

end
