(* ===== verification/Net.thy ===== *)
theory Net
  imports Http_Response
begin

text \<open>
  The epoll registry and the socket calls of \<^verbatim>\<open>src/src/network/http_conn.cpp\<close>: \<^verbatim>\<open>setnonblock\<close>,
  \<^verbatim>\<open>addfd\<close>, \<^verbatim>\<open>removefd\<close>, \<^verbatim>\<open>modfd\<close>, and the members of \<^verbatim>\<open>http_conn\<close> that act on the socket only:
  \<^verbatim>\<open>init(sockfd, addr)\<close>, \<^verbatim>\<open>close_conn\<close> and the \<^verbatim>\<open>writev\<close> loop \<^verbatim>\<open>write\<close>.
\<close>

section \<open>The registry\<close>

datatype epoll_flag = EPOLLIN | EPOLLOUT | EPOLLRDHUP | EPOLLONESHOT | EPOLLHUP | EPOLLERR

text \<open>
  The interest list of the one epoll instance, the descriptors in non-blocking mode, the open
  descriptors and the static \<^verbatim>\<open>m_user_count\<close>.
\<close>

record net =
  interest :: "int \<rightharpoonup> epoll_flag set"
  nonblocking :: "int set"
  open_fds :: "int set"
  m_user_count :: int

definition setnonblock :: "int \<Rightarrow> net \<Rightarrow> net" where
  "setnonblock fd n = n\<lparr>nonblocking := insert fd (nonblocking n)\<rparr>"

text \<open>\<^verbatim>\<open>EPOLL_CTL_ADD\<close> of a descriptor that is already registered fails and changes nothing.\<close>

definition addfd :: "int \<Rightarrow> bool \<Rightarrow> net \<Rightarrow> net" where
  "addfd fd one_shot n =
     setnonblock fd
       (case interest n fd of
          Some _ \<Rightarrow> n
        | None \<Rightarrow> n\<lparr>interest := (interest n)
            (fd \<mapsto> {EPOLLIN, EPOLLRDHUP} \<union> (if one_shot then {EPOLLONESHOT} else {}))\<rparr>)"

definition removefd :: "int \<Rightarrow> net \<Rightarrow> net" where
  "removefd fd n = n\<lparr>interest := (interest n)(fd := None), open_fds := open_fds n - {fd},
     nonblocking := nonblocking n - {fd}\<rparr>"

text \<open>\<^verbatim>\<open>EPOLL_CTL_MOD\<close> of a descriptor that is not registered fails and changes nothing.\<close>

definition modfd :: "int \<Rightarrow> epoll_flag \<Rightarrow> net \<Rightarrow> net" where
  "modfd fd ev n =
     (case interest n fd of
        None \<Rightarrow> n
      | Some _ \<Rightarrow> n\<lparr>interest := (interest n)(fd \<mapsto> {ev, EPOLLONESHOT, EPOLLRDHUP})\<rparr>)"

text \<open>The kernel side of one-shot delivery: the descriptor stays registered with nothing enabled.\<close>

definition deliver :: "int \<Rightarrow> net \<Rightarrow> net" where
  "deliver fd n =
     (case interest n fd of
        None \<Rightarrow> n
      | Some fl \<Rightarrow> if EPOLLONESHOT \<in> fl then n\<lparr>interest := (interest n)(fd \<mapsto> {})\<rparr> else n)"

definition armed :: "net \<Rightarrow> int \<Rightarrow> bool" where
  "armed n fd = (\<exists>fl. interest n fd = Some fl \<and> fl \<noteq> {})"

section \<open>Opening and closing a connection\<close>

definition init_conn :: "int \<Rightarrow> http_conn \<Rightarrow> net \<Rightarrow> http_conn \<times> net" where
  "init_conn sockfd c n =
     (init (c\<lparr>m_sockfd := sockfd\<rparr>), addfd sockfd True (n\<lparr>m_user_count := m_user_count n + 1\<rparr>))"

definition close_conn :: "http_conn \<Rightarrow> net \<Rightarrow> http_conn \<times> net" where
  "close_conn c n =
     (if m_sockfd c \<noteq> - 1
      then (let n' = removefd (m_sockfd c) n
            in (c\<lparr>m_sockfd := - 1\<rparr>, n'\<lparr>m_user_count := m_user_count n' - 1\<rparr>))
      else (c, n))"

section \<open>The write loop\<close>

text \<open>
  The results of successive \<^verbatim>\<open>writev\<close> calls: the number of bytes the kernel accepts each time, then
  \<^verbatim>\<open>EAGAIN\<close> or another error. A call accepts no more than it is given.
\<close>

datatype send_end = Send_again | Send_error

text \<open>The bookkeeping after \<^verbatim>\<open>temp\<close> bytes were accepted; the flag is the \<^verbatim>\<open>continue\<close>.\<close>

definition advance :: "nat \<Rightarrow> http_conn \<Rightarrow> bool \<times> http_conn" where
  "advance temp c =
     (if m_iv0 c \<noteq> [] \<and> temp < length (m_iv0 c)
      then (True, c\<lparr>m_iv0 := drop temp (m_iv0 c)\<rparr>)
      else
        let rest = temp - length (m_iv0 c);
            c1 = c\<lparr>m_iv0 := []\<rparr>
        in (False, if m_iv_count c = 2 \<and> rest > 0 then c1\<lparr>m_iv1 := drop rest (m_iv1 c1)\<rparr> else c1))"

text \<open>The loop returns the flag of \<^verbatim>\<open>write\<close>, the bytes the peer received, the connection and the registry.\<close>

fun write_loop :: "nat list \<Rightarrow> send_end \<Rightarrow> http_conn \<Rightarrow> net \<Rightarrow> bool \<times> string \<times> http_conn \<times> net" where
  "write_loop [] Send_again c n = (True, [], c, modfd (m_sockfd c) EPOLLOUT n)"
| "write_loop [] Send_error c n = (False, [], c, n)"
| "write_loop (k # ks) e c n =
     (let temp = min k (length (to_send c));
          sent = take temp (to_send c);
          (cont, c1) = advance temp c in
      if \<not> cont \<and> to_send c1 = [] then
        (if m_linger c1 then (True, sent, init c1, modfd (m_sockfd c1) EPOLLIN n)
         else (False, sent, c1, modfd (m_sockfd c1) EPOLLIN n))
      else
        let (ok, more, c2, n2) = write_loop ks e c1 n in (ok, sent @ more, c2, n2))"

definition conn_write :: "nat list \<Rightarrow> send_end \<Rightarrow> http_conn \<Rightarrow> net \<Rightarrow> bool \<times> string \<times> http_conn \<times> net" where
  "conn_write ks e c n =
     (if to_send c = [] then (True, [], init c, modfd (m_sockfd c) EPOLLIN n)
      else write_loop ks e c n)"

section \<open>Lemmas\<close>

lemma advance_to_send: "temp \<le> length (to_send c) \<Longrightarrow> to_send (snd (advance temp c)) = drop temp (to_send c)"
  by (auto simp: advance_def to_send_def Let_def)

lemma advance_frame:
  "m_sockfd (snd (advance temp c)) = m_sockfd c \<and> m_linger (snd (advance temp c)) = m_linger c \<and>
   m_iv_count (snd (advance temp c)) = m_iv_count c"
  by (auto simp: advance_def Let_def)

lemma advance_cont: "fst (advance temp c) \<Longrightarrow> to_send (snd (advance temp c)) \<noteq> []"
  by (auto simp: advance_def to_send_def Let_def split: if_splits)

lemma init_to_send [simp]: "to_send (init c) = []"
  by (simp add: init_def to_send_def)



text \<open>A peer that accepts at least one byte per call gets everything within that many calls.\<close>

lemma write_loop_completes:
  "to_send c \<noteq> [] \<Longrightarrow> length (to_send c) \<le> length ks \<Longrightarrow> 0 \<notin> set ks \<Longrightarrow>
   fst (snd (write_loop ks e c n)) = to_send c \<and> fst (write_loop ks e c n) = m_linger c"
proof (induction ks arbitrary: c n)
  case Nil
  then show ?case by simp
next
  case (Cons k ks)
  define temp where "temp = min k (length (to_send c))"
  obtain cont c1 where a: "advance temp c = (cont, c1)" by (cases "advance temp c")
  have u: "to_send c1 = drop temp (to_send c)"
    using advance_to_send [of temp c] a by (simp add: temp_def)
  have f: "m_linger c1 = m_linger c" using advance_frame [of temp c] a by auto
  show ?case
  proof (cases "\<not> cont \<and> to_send c1 = []")
    case True
    with a u f show ?thesis
      by (auto simp: Let_def temp_def [symmetric])
  next
    case False
    then have ne: "to_send c1 \<noteq> []" using advance_cont [of temp c] a by auto
    have "length (to_send c1) \<le> length ks"
      using Cons.prems u by (auto simp: temp_def)
    with Cons.IH [OF ne] Cons.prems(3) False a u f show ?thesis
      by (auto simp: Let_def temp_def [symmetric] split_def)
  qed
qed

section \<open>Correctness\<close>





text \<open>
  Progress. A peer that accepts at least one byte per \<^verbatim>\<open>writev\<close> gets the whole response within as
  many calls as it has bytes, and \<^verbatim>\<open>write()\<close> then returns whether the connection is kept.
\<close>

theorem write_completes:
  assumes "to_send c \<noteq> []" "length (to_send c) \<le> length ks" "0 \<notin> set ks"
  shows "fst (snd (conn_write ks e c n)) = to_send c \<and> fst (conn_write ks e c n) = m_linger c"
  using write_loop_completes [OF assms] assms(1) by (simp add: conn_write_def)

end
