(* ===== verification/Http_Conn.thy ===== *)
theory Http_Conn
  imports Http_Handlers Net
begin

text \<open>
  The request state machine of \<^verbatim>\<open>src/src/network/http_conn.cpp\<close>: \<^verbatim>\<open>parse_headers\<close> and
  \<^verbatim>\<open>parse_content\<close> with their dispatch to the handlers, the loop of \<^verbatim>\<open>process_read\<close>, and the worker
  entry point \<^verbatim>\<open>process\<close> with its exception barrier.
\<close>

section \<open>Dispatch\<close>

definition parse_headers :: "('db, 'rd, 'ob) externals \<Rightarrow> nat \<Rightarrow> http_conn \<Rightarrow> ('db, 'rd, 'ob) handled" where
  "parse_headers E text c =
     (if m_read_buf c text = NUL then
        (if apireq c = 1 \<and> m_method c = DELETE then handle_delete_resource E c
         else if apireq c = 1 \<and> m_method c = GET then handle_get_resources E c
         else if m_method c = POST \<and> (apireq c = 2 \<or> apireq c = 3 \<or> apireq c = 4 \<or> apireq c = 5)
         then reply NO_REQUEST (c\<lparr>m_check_stat := CHECK_STATE_CONTENT\<rparr>)
         else if apireq c = 6 \<and> m_method c = GET then handle_create_download_url E c
         else if apireq c = 7 \<and> m_method c = GET then handle_health E c
         else if m_content_length c \<noteq> 0 then reply NO_REQUEST (c\<lparr>m_check_stat := CHECK_STATE_CONTENT\<rparr>)
         else reply NO_RESOURCE c)
      else reply NO_REQUEST (parse_header_field text c))"

text \<open>
  The test of \<^verbatim>\<open>parse_content\<close>, with the sum of two \<^verbatim>\<open>int\<close>s reduced to 32 bits, and the NUL stored
  behind the body. A store outside the array (a negative or wrapped length) leaves the array as it
  is; what else it hits is not modelled.
\<close>

definition body_received :: "http_conn \<Rightarrow> bool" where
  "body_received c = (int (m_read_index c) \<ge> to_int32 (m_content_length c + int (m_checked_index c)))"

definition body_end :: "nat \<Rightarrow> http_conn \<Rightarrow> int" where
  "body_end text c = int text + m_content_length c"

definition end_body :: "nat \<Rightarrow> http_conn \<Rightarrow> http_conn" where
  "end_body text c =
     (if 0 \<le> body_end text c \<and> body_end text c < int READ_BUFFER_SIZE
      then c\<lparr>m_read_buf := (m_read_buf c)(nat (body_end text c) := NUL)\<rparr> else c)"

definition parse_content :: "('db, 'rd, 'ob) externals \<Rightarrow> nat \<Rightarrow> http_conn \<Rightarrow> ('db, 'rd, 'ob) handled" where
  "parse_content E text c =
     (if body_received c then
        (let c1 = end_body text c in
         if apireq c1 = 1 then
           (if m_method c1 = POST then handle_post_resource E text c1
            else if m_method c1 = PUT then handle_put_resource E text c1
            else reply NO_RESOURCE c1)
         else if m_method c1 = POST \<and> apireq c1 = 2 then handle_login E text c1
         else if m_method c1 = POST \<and> apireq c1 = 3 then handle_logout E c1
         else if m_method c1 = POST \<and> apireq c1 = 4 then handle_register E text c1
         else if m_method c1 = POST \<and> apireq c1 = 5 then handle_create_upload_url E text c1
         else reply NO_RESOURCE c1)
      else reply BAD_REQUEST c)"

section \<open>Handlers keep the parser's cursor\<close>

text \<open>A handler changes the answer and stores NULs in the read buffer, nothing else.\<close>

definition wiped :: "(nat \<Rightarrow> char) \<Rightarrow> (nat \<Rightarrow> char) \<Rightarrow> bool" where
  "wiped b b' = (\<forall>j. b' j = b j \<or> b' j = NUL)"

lemma wiped_refl [simp, intro]: "wiped b b"
  by (simp add: wiped_def)

lemma wiped_upd [simp]: "wiped b b' \<Longrightarrow> wiped b (b'(j := NUL))"
  by (simp add: wiped_def)

lemma wiped_trans: "wiped a b \<Longrightarrow> wiped b c \<Longrightarrow> wiped a c"
  unfolding wiped_def by metis

definition same_cursor :: "http_conn \<Rightarrow> http_conn \<Rightarrow> bool" where
  "same_cursor c c' = (wiped (m_read_buf c) (m_read_buf c') \<and>
     c' = c\<lparr>json_res := json_res c', m_read_buf := m_read_buf c'\<rparr>)"

lemma same_cursorD:
  assumes "same_cursor c c'"
  shows "m_read_index c' = m_read_index c" "m_checked_index c' = m_checked_index c" "m_start_line c' = m_start_line c"
    "m_check_stat c' = m_check_stat c" "m_sockfd c' = m_sockfd c" "m_linger c' = m_linger c"
    "m_write_index c' = m_write_index c" "m_url c' = m_url c" "m_version c' = m_version c" "m_host c' = m_host c"
    "m_content_length c' = m_content_length c" "apireq c' = apireq c" "m_iv_count c' = m_iv_count c"
    "m_method c' = m_method c" "wiped (m_read_buf c) (m_read_buf c')"
proof -
  obtain j b where "c' = c\<lparr>json_res := j, m_read_buf := b\<rparr>" using assms unfolding same_cursor_def by blast
  then show "m_read_index c' = m_read_index c" "m_checked_index c' = m_checked_index c" "m_start_line c' = m_start_line c"
    "m_check_stat c' = m_check_stat c" "m_sockfd c' = m_sockfd c" "m_linger c' = m_linger c"
    "m_write_index c' = m_write_index c" "m_url c' = m_url c" "m_version c' = m_version c" "m_host c' = m_host c"
    "m_content_length c' = m_content_length c" "apireq c' = apireq c" "m_iv_count c' = m_iv_count c"
    "m_method c' = m_method c"
    by simp_all
qed (use assms in \<open>simp add: same_cursor_def\<close>)

lemma same_cursorI:
  "c' = c\<lparr>json_res := j, m_read_buf := b\<rparr> \<Longrightarrow> wiped (m_read_buf c) b \<Longrightarrow> same_cursor c c'"
  by (simp add: same_cursor_def)

lemma same_cursor_refl [simp, intro]: "same_cursor c c"
  by (simp add: same_cursor_def)

lemma same_cursor_trans: "same_cursor a b \<Longrightarrow> same_cursor b c \<Longrightarrow> same_cursor a c"
proof -
  assume ab: "same_cursor a b" and bc: "same_cursor b c"
  from ab obtain j m where b: "b = a\<lparr>json_res := j, m_read_buf := m\<rparr>" unfolding same_cursor_def by blast
  from bc obtain j' m' where c: "c = b\<lparr>json_res := j', m_read_buf := m'\<rparr>" unfolding same_cursor_def by blast
  show ?thesis
    by (rule same_cursorI [where j = j' and b = m']) (use ab bc b c in \<open>auto simp: same_cursor_def intro: wiped_trans\<close>)
qed

lemma same_cursor_json [simp]: "same_cursor c (c'\<lparr>json_res := s\<rparr>) \<longleftrightarrow> same_cursor c c'"
proof -
  have "same_cursor c' (c'\<lparr>json_res := s\<rparr>)" "same_cursor (c'\<lparr>json_res := s\<rparr>) c'"
    by (rule same_cursorI [where j = s and b = "m_read_buf c'"]; simp)
       (rule same_cursorI [where j = "json_res c'" and b = "m_read_buf c'"]; simp)
  then show ?thesis by (blast intro: same_cursor_trans)
qed

lemma same_cursor_buf: "same_cursor c c' \<Longrightarrow> wiped (m_read_buf c') b \<Longrightarrow> same_cursor c (c'\<lparr>m_read_buf := b\<rparr>)"
  by (erule same_cursor_trans, rule same_cursorI [where j = "json_res c'" and b = b]) simp_all

text \<open>\<open>settles c m\<close>: whatever the world, \<open>m\<close> ends the request and leaves the cursor of \<open>c\<close> in place.\<close>

definition settles :: "http_conn \<Rightarrow> ('db, 'rd, 'ob) handled \<Rightarrow> bool" where
  "settles c m = (\<forall>w. fst (fst (run_state m w)) \<notin> {Inr NO_REQUEST, Inr CLOSED_CONNECTION} \<and>
     same_cursor c (snd (fst (run_state m w))))"

lemma settles_reply [simp]: "settles c (reply code c') \<longleftrightarrow> code \<notin> {NO_REQUEST, CLOSED_CONNECTION} \<and> same_cursor c c'"
  by (simp add: settles_def reply_def)

lemma settles_throw [simp]: "settles c (throw e c') \<longleftrightarrow> same_cursor c c'"
  by (simp add: settles_def throw_def)

lemma settles_bind: "(\<And>x. settles c (k x)) \<Longrightarrow> settles c (State_Monad.bind m k)"
  by (simp add: settles_def split_def)

lemma settles_reject [simp]:
  "settles c (reject route a r code c') \<longleftrightarrow> code \<notin> {NO_REQUEST, CLOSED_CONNECTION} \<and> same_cursor c c'"
  by (simp add: settles_def reject_def reply_def log_request_error_def)

lemma settles_authenticated: "(\<And>u. settles c (body u)) \<Longrightarrow> settles c (authenticated E c body)"
  unfolding authenticated_def by (intro settles_bind) (auto split: option.splits intro!: settles_bind)

lemma settles_with_body: "(\<And>j. settles c (k j)) \<Longrightarrow> settles c (with_body E route body c k)"
  by (auto simp: with_body_def split: sum.splits exn.splits)

lemma settles_finish:
  "code \<notin> {NO_REQUEST, CLOSED_CONNECTION} \<Longrightarrow> same_cursor c c' \<Longrightarrow> settles c (finish E route code c' res)"
  unfolding finish_def Let_def by (auto split: sum.splits intro!: settles_bind)

lemma parse_query_wiped: "parse_query q b = (k, v, b') \<Longrightarrow> wiped b b'"
  by (auto simp: parse_query_def Let_def split: option.splits)

lemma split_target_cursor: "split_target c = (q, k, v, c') \<Longrightarrow> same_cursor c c'"
  by (auto simp: split_target_def split: option.splits prod.splits
      intro!: same_cursor_buf dest!: parse_query_wiped elim: wiped_trans [rotated])

lemmas settles_rules = settles_authenticated settles_with_body settles_bind settles_finish

lemma settles_register: "settles c (handle_register E text c)"
  unfolding handle_register_def Let_def by (intro settles_rules) (auto intro!: settles_rules)

lemma settles_login: "settles c (handle_login E text c)"
  unfolding handle_login_def Let_def by (intro settles_rules) (auto intro!: settles_rules)

lemma settles_logout: "settles c (handle_logout E c)"
  unfolding handle_logout_def Let_def
  by (intro settles_rules) (auto split: sum.splits intro!: settles_rules)

lemma settles_get: "settles c (handle_get_resources E c)"
  unfolding handle_get_resources_def Let_def
  by (intro settles_authenticated) (auto split: prod.splits dest: split_target_cursor intro!: settles_bind settles_finish)

lemma settles_delete: "settles c (handle_delete_resource E c)"
  unfolding handle_delete_resource_def Let_def
  by (intro settles_authenticated) (auto split: prod.splits dest: split_target_cursor intro!: settles_bind settles_finish)

lemma settles_download: "settles c (handle_create_download_url E c)"
  unfolding handle_create_download_url_def Let_def
  by (intro settles_authenticated) (auto split: prod.splits dest: split_target_cursor intro!: settles_bind settles_finish)

lemma settles_post: "settles c (handle_post_resource E text c)"
  unfolding handle_post_resource_def Let_def
  by (intro settles_authenticated settles_bind settles_with_body)
     (auto split: sum.splits intro!: settles_rules)

lemma settles_put: "settles c (handle_put_resource E text c)"
  unfolding handle_put_resource_def Let_def
  by (intro settles_authenticated settles_bind settles_with_body)
     (auto split: sum.splits intro!: settles_rules)

lemma settles_upload: "settles c (handle_create_upload_url E text c)"
  unfolding handle_create_upload_url_def Let_def by (intro settles_rules) (auto intro!: settles_rules)

lemma settles_health: "settles c (handle_health E c)"
  unfolding handle_health_def by (auto split: sum.splits)

text \<open>The contract of a route handler, and the ten handlers that keep it.\<close>

locale route_handler =
  fixes handle :: "http_conn \<Rightarrow> ('db, 'rd, 'ob) handled"
  assumes settled: "settles c (handle c)"
begin

lemma answers: "fst (fst (run_state (handle c) w)) \<noteq> Inr NO_REQUEST"
  using settled by (simp add: settles_def)

lemma not_closed: "fst (fst (run_state (handle c) w)) \<noteq> Inr CLOSED_CONNECTION"
  using settled by (simp add: settles_def)

lemma keeps_cursor: "same_cursor c (snd (fst (run_state (handle c) w)))"
  using settled by (simp add: settles_def)

end

interpretation h_register: route_handler "handle_register E p" for E p
  by unfold_locales (rule settles_register)
interpretation h_login: route_handler "handle_login E p" for E p
  by unfold_locales (rule settles_login)
interpretation h_logout: route_handler "handle_logout E" for E
  by unfold_locales (rule settles_logout)
interpretation h_get: route_handler "handle_get_resources E" for E
  by unfold_locales (rule settles_get)
interpretation h_delete: route_handler "handle_delete_resource E" for E
  by unfold_locales (rule settles_delete)
interpretation h_post: route_handler "handle_post_resource E p" for E p
  by unfold_locales (rule settles_post)
interpretation h_put: route_handler "handle_put_resource E p" for E p
  by unfold_locales (rule settles_put)
interpretation h_upload: route_handler "handle_create_upload_url E p" for E p
  by unfold_locales (rule settles_upload)
interpretation h_download: route_handler "handle_create_download_url E" for E
  by unfold_locales (rule settles_download)
interpretation h_health: route_handler "handle_health E" for E
  by unfold_locales (rule settles_health)

lemma same_cursor_end_body: "same_cursor c (end_body text c)"
  by (auto simp: end_body_def intro!: same_cursor_buf)

lemma settles_from: "same_cursor c c1 \<Longrightarrow> settles c1 m \<Longrightarrow> settles c m"
  unfolding settles_def by (blast intro: same_cursor_trans)

lemma settles_content: "settles c (parse_content E text c)"
proof (cases "body_received c")
  case True
  note s = settles_from [OF same_cursor_end_body]
  show ?thesis
    using True by (auto simp: parse_content_def Let_def same_cursor_end_body
        intro: s [OF h_post.settled] s [OF h_put.settled] s [OF h_login.settled]
          s [OF h_logout.settled] s [OF h_register.settled] s [OF h_upload.settled])
qed (simp add: parse_content_def)

interpretation h_content: route_handler "parse_content E p" for E p
  by unfold_locales (rule settles_content)

text \<open>\<^const>\<open>parse_headers\<close> may also ask for more, still without moving the cursor.\<close>

lemma parse_header_field_frame:
  "m_read_index (parse_header_field text c) = m_read_index c \<and>
   m_checked_index (parse_header_field text c) = m_checked_index c \<and>
   m_start_line (parse_header_field text c) = m_start_line c \<and>
   m_check_stat (parse_header_field text c) = m_check_stat c \<and>
   m_sockfd (parse_header_field text c) = m_sockfd c \<and>
   m_write_index (parse_header_field text c) = m_write_index c \<and>
   m_read_buf (parse_header_field text c) = m_read_buf c"
  by (simp add: parse_header_field_def Let_def)

definition same_window :: "http_conn \<Rightarrow> http_conn \<Rightarrow> bool" where
  "same_window c c' = (m_read_index c' = m_read_index c \<and> m_checked_index c' = m_checked_index c \<and>
     m_start_line c' = m_start_line c \<and> m_sockfd c' = m_sockfd c \<and> m_write_index c' = m_write_index c)"

lemma settles_window: "settles c m \<Longrightarrow> same_window c (snd (fst (run_state m w)))"
  by (simp add: settles_def same_window_def same_cursorD)

lemma parse_headers_window: "same_window c (snd (fst (run_state (parse_headers E text c) w)))"
proof (cases "m_read_buf c text = NUL")
  case True
  have r: "same_window c (snd (fst (run_state (reply code (c\<lparr>m_check_stat := st\<rparr>)) w)))"
    "same_window c (snd (fst (run_state (reply code c) w)))" for code st
    by (simp_all add: reply_def same_window_def)
  show ?thesis
    using True r settles_window [OF h_delete.settled] settles_window [OF h_get.settled]
      settles_window [OF h_download.settled] settles_window [OF h_health.settled]
    by (auto simp: parse_headers_def)
next
  case False
  then show ?thesis
    using parse_header_field_frame [of "text" c] by (simp add: parse_headers_def reply_def same_window_def)
qed

lemma parse_request_line_window: "same_window c (snd (parse_request_line text c))"
  by (simp add: parse_request_line_def Let_def same_window_def split: option.splits)

section \<open>The state machine\<close>

text \<open>The condition of the loop: no scan in the content state after a good line, else one line.\<close>

definition next_line :: "LINE_STATUS \<Rightarrow> http_conn \<Rightarrow> LINE_STATUS \<times> http_conn" where
  "next_line st c =
     (if m_check_stat c = CHECK_STATE_CONTENT \<and> st = LINE_OK then (LINE_OK, c) else parse_line c)"

lemma next_line_content:
  "next_line st c = (st', c') \<Longrightarrow> m_check_stat c = CHECK_STATE_CONTENT \<and> st = LINE_OK \<Longrightarrow> c' = c"
  by (simp add: next_line_def)

lemma next_line_moves:
  assumes "next_line st c = (LINE_OK, c')" "\<not> (m_check_stat c = CHECK_STATE_CONTENT \<and> st = LINE_OK)"
  shows "m_checked_index c < m_checked_index c' \<and> m_checked_index c' \<le> m_read_index c' \<and>
    m_read_index c' = m_read_index c \<and> m_check_stat c' = m_check_stat c"
proof -
  from assms have p: "parse_line c = (LINE_OK, c')" by (auto simp: next_line_def split: if_splits)
  define d where "d = c\<lparr>m_read_buf := m_read_buf c', m_checked_index := m_checked_index c'\<rparr>"
  from parse_line_ok_frame [OF p] have "c' = d" unfolding d_def by blast
  then have "m_read_index c' = m_read_index d" "m_check_stat c' = m_check_stat d"
    by (rule arg_cong)+
  then have "m_read_index c' = m_read_index c" "m_check_stat c' = m_check_stat c"
    by (simp_all add: d_def)
  with parse_line_ok_frame [OF p] show ?thesis by auto
qed

text \<open>One pass of the loop body; \<open>Inr (st, c)\<close> goes round again, \<open>Inl r\<close> returns.\<close>

definition after_ret :: "LINE_STATUS \<Rightarrow> ((exn + HTTP_CODE) \<times> http_conn) \<Rightarrow>
    ((exn + HTTP_CODE) \<times> http_conn) + (LINE_STATUS \<times> http_conn)" where
  "after_ret st r = (if fst r = Inr NO_REQUEST then Inr (st, snd r) else Inl r)"

definition loop_body :: "('db, 'rd, 'ob) externals \<Rightarrow> LINE_STATUS \<Rightarrow> http_conn \<Rightarrow>
    ('db, 'rd, 'ob, ((exn + HTTP_CODE) \<times> http_conn) + (LINE_STATUS \<times> http_conn)) action" where
  "loop_body E st c =
     (let text = get_line c; c1 = c\<lparr>m_start_line := m_checked_index c\<rparr> in
      case m_check_stat c1 of
        CHECK_STATE_REQUESTLINE \<Rightarrow>
          (let (ret, c2) = parse_request_line text c1 in
           State_Monad.return (if ret = BAD_REQUEST then Inl (Inr BAD_REQUEST, c2) else Inr (st, c2)))
      | CHECK_STATE_HEADER \<Rightarrow> do {
          r \<leftarrow> parse_headers E text c1;
          State_Monad.return (after_ret st r) }
      | CHECK_STATE_CONTENT \<Rightarrow> do {
          r \<leftarrow> parse_content E text c1;
          State_Monad.return (after_ret LINE_OPEN r) })"

lemma loop_body_window:
  "fst (run_state (loop_body E st c) w) = Inr (st', c') \<Longrightarrow>
   m_read_index c' = m_read_index c \<and> m_checked_index c' = m_checked_index c \<and>
   m_check_stat c \<noteq> CHECK_STATE_CONTENT"
  using parse_request_line_window [of "c\<lparr>m_start_line := m_checked_index c\<rparr>" "get_line c"]
    parse_headers_window [of "c\<lparr>m_start_line := m_checked_index c\<rparr>" E "get_line c" w]
    h_content.answers [of E "get_line c" "c\<lparr>m_start_line := m_checked_index c\<rparr>" w]
  by (auto simp: loop_body_def Let_def after_ret_def same_window_def split_def
      split: CHECK_STATE.splits if_splits)

text \<open>Twice the bytes not yet scanned, plus one when the body is to be handled next.\<close>

definition scan_measure :: "LINE_STATUS \<Rightarrow> http_conn \<Rightarrow> nat" where
  "scan_measure st c = 2 * (m_read_index c - m_checked_index c) +
     (if m_check_stat c = CHECK_STATE_CONTENT \<and> st = LINE_OK then 1 else 0)"

lemma scan_decreases:
  assumes n': "(LINE_OK, c1) = next_line st c"
    and b: "(Inr (st2, c2), w1) = run_state (loop_body E LINE_OK c1) w"
  shows "scan_measure st2 c2 < scan_measure st c"
proof -
  note n = n' [symmetric]
  have k: "m_read_index c2 = m_read_index c1" "m_checked_index c2 = m_checked_index c1"
    "m_check_stat c1 \<noteq> CHECK_STATE_CONTENT"
    using loop_body_window [of E LINE_OK c1 w st2 c2] b [symmetric] by auto
  then have "\<not> (m_check_stat c = CHECK_STATE_CONTENT \<and> st = LINE_OK)"
    using next_line_content [OF n] by auto
  with next_line_moves [OF n] k show ?thesis
    by (auto simp: scan_measure_def)
qed

function process_read_loop :: "('db, 'rd, 'ob) externals \<Rightarrow> LINE_STATUS \<Rightarrow> http_conn \<Rightarrow> ('db, 'rd, 'ob) world \<Rightarrow>
    ((exn + HTTP_CODE) \<times> http_conn) \<times> ('db, 'rd, 'ob) world" where
  "process_read_loop E st c w =
     (case next_line st c of
        (st1, c1) \<Rightarrow>
          if st1 \<noteq> LINE_OK then ((Inr NO_REQUEST, c1), w)
          else
            (case run_state (loop_body E st1 c1) w of
               (Inl r, w1) \<Rightarrow> (r, w1)
             | (Inr (st2, c2), w1) \<Rightarrow> process_read_loop E st2 c2 w1))"
  by pat_completeness auto
termination
  by (relation "measure (\<lambda>(E, st, c, w). scan_measure st c)") (auto intro: scan_decreases)

declare process_read_loop.simps [simp del]

definition process_read :: "('db, 'rd, 'ob) externals \<Rightarrow> http_conn \<Rightarrow> ('db, 'rd, 'ob) handled" where
  "process_read E c = State (process_read_loop E LINE_OK c)"

section \<open>The worker entry point\<close>

definition process :: "('db, 'rd, 'ob) externals \<Rightarrow> http_conn \<Rightarrow> net \<Rightarrow> ('db, 'rd, 'ob, http_conn \<times> net) action" where
  "process E c n = do {
     (r, c1) \<leftarrow> process_read E c;
     (read_ret, c2) \<leftarrow> (case r of
        Inr ret \<Rightarrow> State_Monad.return (ret, c1)
      | Inl e \<Rightarrow> do {
          log ERROR (case exn_what e of
             Some m \<Rightarrow> ''request processing failed: '' @ m
           | None \<Rightarrow> ''request processing failed'');
          State_Monad.return (INTERNAL_ERROR, c1\<lparr>json_res := error_text ''internal server error''\<rparr>) });
     if read_ret = NO_REQUEST then State_Monad.return (c2, modfd (m_sockfd c2) EPOLLIN n)
     else do {
       let (write_ret, c3) = process_write read_ret c2;
       State_Monad.return
         (if \<not> write_ret then close_conn c3 n else (c3, modfd (m_sockfd c3) EPOLLOUT n)) }
   }"

section \<open>Resumption after a partial request\<close>

text \<open>In the content state the loop always ends the request.\<close>

lemma content_answers:
  assumes "m_check_stat c = CHECK_STATE_CONTENT" "process_read_loop E LINE_OK c w = (r, w')"
  shows "fst r \<noteq> Inr NO_REQUEST"
proof -
  have "next_line LINE_OK c = (LINE_OK, c)" using assms by (simp add: next_line_def)
  moreover have "\<exists>r'. fst (run_state (loop_body E LINE_OK c) w) = Inl r' \<and> fst r' \<noteq> Inr NO_REQUEST"
    using assms(1) h_content.answers [of E "get_line c" "c\<lparr>m_start_line := m_checked_index c\<rparr>" w]
    by (simp add: loop_body_def Let_def after_ret_def split_def)
  ultimately show ?thesis
    using assms(2) by (auto simp: process_read_loop.simps [of E LINE_OK c] split: prod.splits sum.splits)
qed

lemma parse_headers_asks:
  assumes r: "run_state (parse_headers E text c) w = ((Inr NO_REQUEST, c'), w')"
    and "m_check_stat c' \<noteq> CHECK_STATE_CONTENT"
  shows "m_read_buf c text \<noteq> NUL \<and> c' = parse_header_field text c \<and> w' = w"
  using assms h_delete.answers [of E c w] h_get.answers [of E c w] h_download.answers [of E c w]
    h_health.answers [of E c w]
  by (auto simp: parse_headers_def reply_def split: if_splits)

lemma loop_body_header:
  assumes "run_state (loop_body E st c) w = (Inr (st', c'), w')" "m_check_stat c = CHECK_STATE_HEADER"
  shows "run_state (parse_headers E (m_start_line c) (c\<lparr>m_start_line := m_checked_index c\<rparr>)) w =
    ((Inr NO_REQUEST, c'), w') \<and> st' = st"
  using assms by (auto simp: loop_body_def Let_def get_line_def after_ret_def split_def prod_eq_iff split: if_splits)

text \<open>One pass that asks for more does so as well with more bytes behind the line.\<close>

lemma loop_body_more:
  assumes b: "run_state (loop_body E st c) w = (Inr (st', c'), w')"
    and q: "m_read_buf c q = NUL" "m_start_line c \<le> q" "q < m_read_index c"
    and not_content: "m_check_stat c' \<noteq> CHECK_STATE_CONTENT"
  shows "run_state (loop_body E st (received d c)) w = (Inr (st', received d c'), w) \<and> w' = w \<and> st' = st"
proof (cases "m_check_stat c")
  case CHECK_STATE_REQUESTLINE
  let ?c = "c\<lparr>m_start_line := m_checked_index c\<rparr>"
  have "parse_request_line (m_start_line c) (received d ?c) =
     (fst (parse_request_line (m_start_line c) ?c), received d (snd (parse_request_line (m_start_line c) ?c)))"
    by (rule parse_request_line_more [where q = q]) (use q in auto)
  with b CHECK_STATE_REQUESTLINE show ?thesis
    by (auto simp: loop_body_def Let_def get_line_def received_upd split_def split: if_splits)
next
  case CHECK_STATE_HEADER
  let ?c = "c\<lparr>m_start_line := m_checked_index c\<rparr>"
  have f: "parse_header_field (m_start_line c) (received d ?c) =
      received d (parse_header_field (m_start_line c) ?c)"
    by (rule parse_header_field_more [where q = q]) (use q in auto)
  have h: "m_read_buf c (m_start_line c) \<noteq> NUL \<and> c' = parse_header_field (m_start_line c) ?c \<and> w' = w"
    "st' = st"
    using parse_headers_asks [of E "m_start_line c" ?c w c' w'] loop_body_header [OF b CHECK_STATE_HEADER]
      not_content by auto
  have "buf_write (m_read_buf c) (m_read_index c) d (m_start_line c) = m_read_buf c (m_start_line c)"
    using q by simp
  with CHECK_STATE_HEADER h f show ?thesis
    by (auto simp: loop_body_def Let_def get_line_def parse_headers_def after_ret_def reply_def received_upd)
next
  case CHECK_STATE_CONTENT
  with loop_body_window [of E st c w st' c'] b show ?thesis by simp
qed

lemma loop_body_buf_ok:
  assumes b: "run_state (loop_body E st c) w = (Inr (st', c'), w')" 
    and ok: "m_checked_index c \<le> m_read_index c" "m_read_index c \<le> READ_BUFFER_SIZE"
      "\<forall>j \<ge> m_read_index c. m_read_buf c j = NUL"
    and not_content: "m_check_stat c' \<noteq> CHECK_STATE_CONTENT"
  shows "buf_ok c'"
proof (cases "m_check_stat c")
  case CHECK_STATE_REQUESTLINE
  let ?c = "c\<lparr>m_start_line := m_checked_index c\<rparr>"
  have "c' = snd (parse_request_line (m_start_line c) ?c)"
    using b CHECK_STATE_REQUESTLINE
    by (auto simp: loop_body_def Let_def get_line_def split_def split: if_splits)
  then show ?thesis
    using parse_request_line_window [of ?c "m_start_line c"] ok
      parse_request_line_zero [of "m_read_index c" ?c "m_start_line c"]
    by (auto simp: same_window_def buf_ok_def)
next
  case CHECK_STATE_HEADER
  let ?c = "c\<lparr>m_start_line := m_checked_index c\<rparr>"
  have "c' = parse_header_field (m_start_line c) ?c"
    using parse_headers_asks [of E "m_start_line c" ?c w c' w'] loop_body_header [OF b CHECK_STATE_HEADER]
      not_content by auto
  then show ?thesis
    using parse_header_field_frame [of "m_start_line c" ?c] ok by (auto simp: buf_ok_def)
next
  case CHECK_STATE_CONTENT
  with loop_body_window [of E st c w st' c'] b show ?thesis by simp
qed


lemma loop_body_returns: "run_state (loop_body E st c) w = (Inl x, w') \<Longrightarrow> fst x \<noteq> Inr NO_REQUEST"
  by (auto simp: loop_body_def Let_def after_ret_def split_def split: CHECK_STATE.splits if_splits)

lemma loop_body_status:
  "run_state (loop_body E st c) w = (Inr (st', c'), w') \<Longrightarrow> m_check_stat c \<noteq> CHECK_STATE_CONTENT \<Longrightarrow> st' = st"
  by (auto simp: loop_body_def Let_def after_ret_def split_def split: CHECK_STATE.splits if_splits)

lemma process_read_loop_step:
  "parse_line c = (LINE_OK, c1) \<Longrightarrow> m_check_stat c \<noteq> CHECK_STATE_CONTENT \<Longrightarrow>
   run_state (loop_body E LINE_OK c1) w = (Inr (st2, c2), w1) \<Longrightarrow>
   process_read_loop E st c w = process_read_loop E st2 c2 w1"
  by (subst process_read_loop.simps) (simp add: next_line_def)

text \<open>
  Resumption: when the bytes received so far do not make a request, scanning on after more bytes have
  arrived is the same as scanning everything at once.
\<close>

lemma process_read_loop_resume:
  "process_read_loop E st c w = ((Inr NO_REQUEST, c'), w') \<Longrightarrow> buf_ok c \<Longrightarrow>
   m_check_stat c \<noteq> CHECK_STATE_CONTENT \<Longrightarrow>
   w' = w \<and> buf_ok c' \<and> m_check_stat c' \<noteq> CHECK_STATE_CONTENT \<and>
   process_read_loop E LINE_OK (received d c') w = process_read_loop E st (received d c) w"
proof (induction E st c w rule: process_read_loop.induct)
  case (1 E st c w)
  obtain st1 c1 where n: "parse_line c = (st1, c1)" by (cases "parse_line c")
  then have n': "next_line st c = (st1, c1)" using "1.prems"(3) by (simp add: next_line_def)
  show ?case
  proof (cases "st1 = LINE_OK")
    case False
    with "1.prems"(1) n' have e: "c' = c1" "w' = w" by (auto simp: process_read_loop.simps [of E st c w])
    have "parse_line (received d c1) = parse_line (received d c)"
      by (rule parse_line_resume_aux [OF n False])
    then have "process_read_loop E LINE_OK (received d c1) w = process_read_loop E st (received d c) w"
      using "1.prems"(3) parse_line_open_fields(3) [OF n False]
      by (subst (1 2) process_read_loop.simps) (simp add: next_line_def)
    moreover have "buf_ok c1"
      using "1.prems"(2) parse_line_open_fields [OF n False] parse_line_open_bound [OF n False]
      by (simp add: buf_ok_def)
    ultimately show ?thesis
      using e "1.prems"(3) parse_line_open_fields(3) [OF n False] by simp
  next
    case True
    note n = n [unfolded True]
    note f = parse_line_ok_fields [OF n]
    obtain r w1 where b: "run_state (loop_body E LINE_OK c1) w = (r, w1)"
      by (cases "run_state (loop_body E LINE_OK c1) w")
    show ?thesis
    proof (cases r)
      case (Inl x)
      with "1.prems"(1) b n' True loop_body_returns [of E LINE_OK c1 w x w1] show ?thesis
        by (auto simp: process_read_loop.simps [of E st c w])
    next
      case (Inr y)
      obtain st2 c2 where y: "y = (st2, c2)" by (cases y)
      note b = b [unfolded Inr y]
      have go: "process_read_loop E st2 c2 w1 = ((Inr NO_REQUEST, c'), w')"
        using "1.prems"(1) process_read_loop_step [OF n "1.prems"(3) b] by simp
      have st2: "st2 = LINE_OK"
        using loop_body_status [OF b] f(3) "1.prems"(3) by simp
      then have nc: "m_check_stat c2 \<noteq> CHECK_STATE_CONTENT"
        using content_answers [of c2 E w1] go by fastforce
      have q: "m_read_buf c1 (m_checked_index c1 - 1) = NUL" "m_start_line c1 \<le> m_checked_index c1 - 1"
        "m_checked_index c1 - 1 < m_read_index c1"
        using parse_line_ok_nul [OF n] f "1.prems"(2) by (auto simp: buf_ok_def)
      have more: "run_state (loop_body E LINE_OK (received d c1)) w = (Inr (st2, received d c2), w)" "w1 = w"
        using loop_body_more [OF b q nc] by auto
      have "buf_ok c2"
        by (rule loop_body_buf_ok [OF b]) (use f "1.prems"(2) nc in \<open>auto simp: buf_ok_def\<close>)
      then have "w' = w1 \<and> buf_ok c' \<and> m_check_stat c' \<noteq> CHECK_STATE_CONTENT \<and>
          process_read_loop E LINE_OK (received d c') w1 = process_read_loop E st2 (received d c2) w1"
        using "1.IH" [OF n' [unfolded True, symmetric] _ b [symmetric] refl refl go _ nc] by simp
      moreover have "process_read_loop E st (received d c) w = process_read_loop E st2 (received d c2) w"
        by (rule process_read_loop_step [OF parse_line_more_ok [OF n] _ more(1)]) (use "1.prems"(3) in simp)
      ultimately show ?thesis using more(2) by simp
    qed
  qed
qed

section \<open>Every processed connection is handed back to the event loop\<close>

definition same_socket :: "http_conn \<Rightarrow> http_conn \<Rightarrow> bool" where
  "same_socket c c' = (m_sockfd c' = m_sockfd c \<and> m_write_index c' = m_write_index c)"

lemma same_window_socket: "same_window c c' \<Longrightarrow> same_socket c c'"
  by (simp add: same_window_def same_socket_def)

lemma same_socket_trans: "same_socket a b \<Longrightarrow> same_socket b c \<Longrightarrow> same_socket a c"
  by (simp add: same_socket_def)

lemma parse_line_socket: "parse_line c = (st, c') \<Longrightarrow> same_socket c c'"
proof (induction c rule: parse_line.induct)
  case (1 c)
  from "1.prems" show ?case
    by (subst (asm) parse_line.simps)
       (use "1.IH" [OF refl refl] in \<open>auto simp: Let_def same_socket_def split: if_splits\<close>)
qed

lemma next_line_socket: "next_line st c = (st', c') \<Longrightarrow> same_socket c c'"
  using parse_line_socket [of c st' c'] by (auto simp: next_line_def same_socket_def split: if_splits)

lemma parse_headers_not_closed: "fst (fst (run_state (parse_headers E text c) w)) \<noteq> Inr CLOSED_CONNECTION"
  using h_delete.not_closed [of E c w] h_get.not_closed [of E c w] h_download.not_closed [of E c w]
    h_health.not_closed [of E c w]
  by (auto simp: parse_headers_def reply_def)

lemma loop_body_socket:
  assumes "run_state (loop_body E st c) w = (r, w')"
  shows "case r of Inl (x, c') \<Rightarrow> x \<noteq> Inr CLOSED_CONNECTION \<and> same_socket c c' | Inr (st', c') \<Rightarrow> same_socket c c'"
proof -
  let ?c = "c\<lparr>m_start_line := m_checked_index c\<rparr>"
  have s: "same_socket c ?c" by (simp add: same_socket_def)
  note s1 = same_socket_trans [OF s same_window_socket [OF parse_request_line_window [of ?c "get_line c"]]]
  note s2 = same_socket_trans [OF s same_window_socket [OF parse_headers_window [of ?c E "get_line c" w]]]
  note s3 = same_socket_trans [OF s same_window_socket [OF settles_window [OF settles_content [of ?c E "get_line c"], of w]]]
  show ?thesis
    using assms s1 s2 s3 parse_headers_not_closed [of E "get_line c" ?c w] h_content.not_closed [of E "get_line c" ?c w]
    by (auto simp: loop_body_def Let_def after_ret_def split_def split: CHECK_STATE.splits if_splits sum.splits)
qed

lemma process_read_loop_socket:
  "process_read_loop E st c w = ((r, c'), w') \<Longrightarrow> r \<noteq> Inr CLOSED_CONNECTION \<and> same_socket c c'"
proof (induction E st c w rule: process_read_loop.induct)
  case (1 E st c w)
  obtain st1 c1 where n: "next_line st c = (st1, c1)" by (cases "next_line st c")
  obtain x w1 where b: "run_state (loop_body E st1 c1) w = (x, w1)" by (cases "run_state (loop_body E st1 c1) w")
  note s = next_line_socket [OF n] loop_body_socket [OF b]
  show ?case
  proof (cases "st1 = LINE_OK")
    case False
    with "1.prems" n s show ?thesis by (auto simp: process_read_loop.simps [of E st c w])
  next
    case True
    show ?thesis
    proof (cases x)
      case (Inl y)
      with "1.prems" n b s True show ?thesis
        by (auto simp: process_read_loop.simps [of E st c w] intro: same_socket_trans)
    next
      case (Inr y)
      obtain st2 c2 where y: "y = (st2, c2)" by (cases y)
      from "1.prems" n b True Inr y have "process_read_loop E st2 c2 w1 = ((r, c'), w')"
        by (simp add: process_read_loop.simps [of E st c w])
      then have "r \<noteq> Inr CLOSED_CONNECTION \<and> same_socket c2 c'"
        using "1.IH" [OF n [symmetric] _ b [symmetric] Inr y [symmetric]] True by simp
      with s Inr y show ?thesis by (auto intro: same_socket_trans)
    qed
  qed
qed

lemma answer_exists: "ret \<noteq> NO_REQUEST \<Longrightarrow> ret \<noteq> CLOSED_CONNECTION \<Longrightarrow> \<exists>a. answer ret j = Some a"
  by (cases ret) auto

lemma process_write_ok:
  assumes "fresh_response c" "ret \<noteq> NO_REQUEST" "ret \<noteq> CLOSED_CONNECTION"
  shows "fst (process_write ret c) \<and> m_sockfd (snd (process_write ret c)) = m_sockfd c"
proof -
  obtain status title type body where "answer ret (json_res c) = Some (status, title, type, body)"
    using answer_exists [OF assms(2,3), of "json_res c"] by fastforce
  from process_write_answer [OF assms(1) this] show ?thesis by simp
qed

text \<open>The result code \<^const>\<open>process\<close> acts on, and the connection it builds the response on.\<close>

fun outcome :: "(exn + HTTP_CODE) \<times> http_conn \<Rightarrow> HTTP_CODE \<times> http_conn" where
  "outcome (Inr ret, c) = (ret, c)"
| "outcome (Inl e, c) = (INTERNAL_ERROR, c\<lparr>json_res := error_text ''internal server error''\<rparr>)"

lemma process_outcome:
  "fst (run_state (process E c n) w) =
     (let (ret, c2) = outcome (fst (run_state (process_read E c) w)) in
      if ret = NO_REQUEST then (c2, modfd (m_sockfd c2) EPOLLIN n)
      else let (ok, c3) = process_write ret c2 in
        if \<not> ok then close_conn c3 n else (c3, modfd (m_sockfd c3) EPOLLOUT n))"
proof -
  obtain r c1 w1 where "run_state (process_read E c) w = ((r, c1), w1)"
    by (metis prod.collapse)
  then show ?thesis
    by (cases r) (auto simp: process_def Let_def split: prod.splits)
qed

lemma process_rearm_fresh:
  assumes "fresh_response c"
  shows "\<exists>c' ev. fst (run_state (process E c n) w) = (c', modfd (m_sockfd c) ev n) \<and>
    m_sockfd c' = m_sockfd c \<and>
    ev = (if fst (fst (run_state (process_read E c) w)) = Inr NO_REQUEST then EPOLLIN else EPOLLOUT) \<and>
    (ev = EPOLLIN \<longrightarrow> fresh_response c')"
proof -
  obtain r c1 w1 where r: "run_state (process_read E c) w = ((r, c1), w1)"
    by (metis prod.collapse)
  then have s: "r \<noteq> Inr CLOSED_CONNECTION" "same_socket c c1"
    using process_read_loop_socket [of E LINE_OK c w r c1 w1] by (auto simp: process_read_def)
  obtain ret c2 where o: "outcome (r, c1) = (ret, c2)" by (cases "outcome (r, c1)")
  have c2: "fresh_response c2" "m_sockfd c2 = m_sockfd c" "ret \<noteq> CLOSED_CONNECTION"
    "ret = NO_REQUEST \<longleftrightarrow> r = Inr NO_REQUEST"
    using o s assms by (cases r; auto simp: fresh_response_def same_socket_def)+
  show ?thesis
  proof (cases "ret = NO_REQUEST")
    case True
    with o r c2 show ?thesis by (simp add: process_outcome)
  next
    case False
    with process_write_ok [OF c2(1) False c2(3)] o r c2 show ?thesis
      by (auto simp: process_outcome Let_def split_def)
  qed
qed

lemma process_rearm:
  assumes "fresh_response c"
  shows "\<exists>c' ev. fst (run_state (process E c n) w) = (c', modfd (m_sockfd c) ev n) \<and>
    m_sockfd c' = m_sockfd c \<and>
    ev = (if fst (fst (run_state (process_read E c) w)) = Inr NO_REQUEST then EPOLLIN else EPOLLOUT)"
  using process_rearm_fresh [OF assms] by blast

section \<open>The request body\<close>

text \<open>
  The body. With a non-negative Content-Length that does not overflow the addition, the terminator
  that \<^verbatim>\<open>parse_content\<close> stores lies within the received bytes or directly behind them, inside the
  buffer; and a handler sees exactly the Content-Length bytes of the body (bytes after them are cut off).
\<close>

theorem body_delivered_exact:
  assumes "text \<le> m_checked_index c" "m_checked_index c \<le> m_read_index c" "m_read_index c < READ_BUFFER_SIZE"
    "0 \<le> m_content_length c" "m_content_length c + int (m_checked_index c) \<le> INT_MAX" "body_received c"
  shows "0 \<le> body_end text c \<and> body_end text c \<le> int (m_read_index c) \<and> body_end text c < int READ_BUFFER_SIZE \<and>
    (\<forall>s. holds (m_read_buf c) text s \<and> int (length s) = m_content_length c \<and> NUL \<notin> set s \<longrightarrow>
       cstr (m_read_buf (end_body text c)) text = s)"
proof -
  have "int32 (m_content_length c + int (m_checked_index c))"
    using assms(4,5) by (auto intro: int32_nonneg)
  then have b: "0 \<le> body_end text c" "body_end text c \<le> int (m_read_index c)" "body_end text c < int READ_BUFFER_SIZE"
    using assms by (auto simp: body_received_def body_end_def)
  have "cstr (m_read_buf (end_body text c)) text = s"
    if s: "holds (m_read_buf c) text s" "int (length s) = m_content_length c" "NUL \<notin> set s" for s
  proof (rule cstr_eqI)
    have n: "nat (body_end text c) = text + length s" using s(2) by (simp add: body_end_def flip: s(2))
    then have e: "m_read_buf (end_body text c) = (m_read_buf c)(text + length s := NUL)"
      using b by (simp add: end_body_def)
    show "holds (m_read_buf (end_body text c)) text s" using s(1) by (simp add: e)
    show "m_read_buf (end_body text c) (text + length s) = NUL" by (simp add: e)
    show "text + length s < READ_BUFFER_SIZE" using n b by linarith
  qed (rule s(3))
  with b show ?thesis by blast
qed

definition body_conn :: http_conn where
  "body_conn = (received ''{}x'' new_conn)\<lparr>m_content_length := 2\<rparr>"

text \<open>
  C40: A negative Content-Length is accepted: \<^verbatim>\<open>m_content_length = atol(text)\<close> is not checked, the test
  for a complete body succeeds, and for a length below the offset of the body the terminator is stored
  at a negative index, before the start of the buffer.
\<close>

theorem negative_length_out_of_bounds:
  assumes "m_checked_index c \<le> m_read_index c" "m_read_index c \<le> READ_BUFFER_SIZE"
    "INT_MIN \<le> m_content_length c" "m_content_length c < - int text"
  shows "body_received c \<and> body_end text c < 0"
proof -
  have "int32 (m_content_length c + int (m_checked_index c))"
    using assms by (auto simp: int32_def int_bounds READ_BUFFER_SIZE_def)
  with assms show ?thesis by (auto simp: body_received_def body_end_def)
qed

theorem negative_length_out_of_bounds_witness:
  "body_received (body_conn\<lparr>m_content_length := - 100\<rparr>) \<and> body_end 60 (body_conn\<lparr>m_content_length := - 100\<rparr>) < 0"
  by (rule negative_length_out_of_bounds) (simp_all add: body_conn_def READ_BUFFER_SIZE_def INT_MIN_def)

end
