(* ===== verification/Account_Properties.thy ===== *)
theory Account_Properties
  imports Reference_Stores Http_Conn
begin

text \<open>
  Who may do what: the life of a bearer token, registration and login, the rejection of requests
  without a valid token by the handlers and by the dispatch above them, and the names under which
  uploaded files are stored. The witnesses run on the reference stores.
\<close>

section \<open>Tokens and accounts\<close>

lemma ref_secret [simp]: "get_secret ref_ext = ''secret''" "get_expires_seconds ref_ext = 3600"
  by (simp_all add: get_secret_def get_expires_seconds_def get_env_or_default_def get_env_int_or_default_def ref_environ_def)

lemma ref_jwt: "jwt_library (jwt_sign ref_ext) (jwt_decode ref_ext) (jwt_verify ref_ext) (jwt_subject ref_ext)"
  using ref_tokens.jwt_library_axioms by simp

lemma ref_world_db: "pool_ready (pg_pool ref_world)" "ref_ok (db ref_world)"
  by (simp_all add: ref_world_def pool_ready_def ref_ok_def note_row_def file_row_def ref_user_def int_bounds)

text \<open>
  C12: The life of a token. With a secret and a positive lifetime \<^verbatim>\<open>create_jwt\<close> always issues a token;
  from then until the last second of its lifetime it resolves to exactly the user it was issued for,
  and after its expiry to nobody.
\<close>

theorem token_lifetime:
  assumes "jwt_library (jwt_sign E) (jwt_decode E) (jwt_verify E) (jwt_subject E)"
    "get_secret E \<noteq> ''''" "0 < get_expires_seconds E" "0 < u" "int32 u"
  shows "\<exists>t. run_state (create_jwt E u) w = (Inr t, w) \<and> t \<noteq> '''' \<and>
    (\<forall>w'. clock_ms w \<le> clock_ms w' \<longrightarrow> clock_ms w' + 1000 \<le> clock_ms w + 1000 * get_expires_seconds E \<longrightarrow>
       fst (run_state (get_user_id_from_token E t) w') = Some u) \<and>
    (\<forall>w'. clock_ms w + 1000 * get_expires_seconds E < clock_ms w' \<longrightarrow>
       fst (run_state (get_user_id_from_token E t) w') = None)"
  using token_life [OF assms] unfolding get_user_id_from_token_def .

theorem token_lifetime_witness:
  "\<exists>t. run_state (create_jwt ref_ext 1) ref_world = (Inr t, ref_world) \<and>
     fst (run_state (get_user_id_from_token ref_ext t) (ref_world\<lparr>clock_ms := 3599000\<rparr>)) = Some 1 \<and>
     fst (run_state (get_user_id_from_token ref_ext t) (ref_world\<lparr>clock_ms := 3600001\<rparr>)) = None"
proof -
  have "clock_ms ref_world = 0" by (simp add: ref_world_def)
  with token_lifetime [OF ref_jwt, of 1 ref_world] show ?thesis by (auto simp: int32_def int_bounds)
qed

text \<open>
  C11: Login. The answer is an error, or it names a user of the table with that e-mail address whose
  stored hash is the hash of the given password, and the token in it resolves to that user's id for
  its whole lifetime. The users table is unchanged and the connection returned.
\<close>

theorem login_sound:
  assumes "pg_users E usrs ok" "pool_ready (pg_pool w)" "ok (db w)" "NUL \<notin> set (ui_email info)"
    "jwt_library (jwt_sign E) (jwt_decode E) (jwt_verify E) (jwt_subject E)"
    "get_secret E \<noteq> ''''" "0 < get_expires_seconds E"
  shows "\<exists>j w'. run_state (login E info) w = (j, w') \<and> usrs (db w') = usrs (db w) \<and> pool_ready (pg_pool w') \<and>
    (contains j ''error'' \<or> (\<exists>u \<in> usrs (db w). \<exists>t. usr_email u = ui_email info \<and>
       usr_password u = sha256 (SHA256 E) (ui_password info) \<and> j = login_answer t u \<and>
       token_for E (clock_ms w) (usr_id u) t))"
proof -
  obtain j w' where r: "run_state (login E info) w = (j, w')" by (cases "run_state (login E info) w")
  from pg_users.login_contract [OF assms(1-7) r] r show ?thesis by blast
qed

definition sample_login :: UserInfo where
  "sample_login = \<lparr>ui_id = 0, ui_name = ''Ann'', ui_email = ''ann@x.org'', ui_password = ''pw''\<rparr>"

lemma sample_login_sel: "ui_name sample_login = ''Ann''" "ui_email sample_login = ''ann@x.org''"
  by (simp_all add: sample_login_def)

theorem login_sound_witness:
  "\<exists>j w'. run_state (login ref_ext sample_login) ref_world = (j, w') \<and>
     set (users_tbl (db w')) = set (users_tbl (db ref_world))"
  using login_sound [OF ref_usr.pg_users_axioms ref_world_db, of sample_login] ref_jwt
  by (auto simp: sample_login_sel)

text \<open>
  C24: Registration and login. A registration either fails and adds nobody, or adds one user under an
  e-mail address nobody had, with the hash of the password. If somebody logs in with this address
  afterwards and is let in, they are that new user and the hash of their password is the hash of the
  registered one.
\<close>

theorem register_then_login:
  assumes "pg_users E usrs ok" "pool_ready (pg_pool w)" "ok (db w)" "NUL \<notin> set (ui_name info)" "NUL \<notin> set (ui_email info)"
    "jwt_library (jwt_sign E) (jwt_decode E) (jwt_verify E) (jwt_subject E)"
    "get_secret E \<noteq> ''''" "0 < get_expires_seconds E" "ui_email again = ui_email info"
  shows "\<exists>j w' j' w''. run_state (create_user E info) w = (j, w') \<and> run_state (login E again) w' = (j', w'') \<and>
    (if contains j ''error'' then usrs (db w') = usrs (db w)
     else ui_email info \<notin> usr_email ` usrs (db w) \<and>
       (\<exists>i. usrs (db w') = insert \<lparr>usr_id = i, usr_name = ui_name info, usr_email = ui_email info,
          usr_password = sha256 (SHA256 E) (ui_password info)\<rparr> (usrs (db w)) \<and>
        (contains j' ''error'' \<or> SHA256 E (ui_password again) = SHA256 E (ui_password info) \<and>
          member j' ''user_id'' = JInt i \<and> member j' ''name'' = JString (ui_name info))))"
proof -
  obtain j w' where r: "run_state (create_user E info) w = (j, w')" by (cases "run_state (create_user E info) w")
  obtain j' w'' where l: "run_state (login E again) w' = (j', w'')" by (cases "run_state (login E again) w'")
  note c = pg_users.register_contract [OF assms(1-5) r]
  have lc: "contains j' ''error'' \<or> (\<exists>u \<in> usrs (db w'). \<exists>t. usr_email u = ui_email info \<and>
       usr_password u = sha256 (SHA256 E) (ui_password again) \<and> j' = login_answer t u)"
    using pg_users.login_contract [OF assms(1) _ _ _ assms(6-8) l] c assms(5,9) by auto
  have "SHA256 E (ui_password again) = SHA256 E (ui_password info) \<and>
      member j' ''user_id'' = JInt i \<and> member j' ''name'' = JString (ui_name info)"
    if i: "usrs (db w') = insert \<lparr>usr_id = i, usr_name = ui_name info, usr_email = ui_email info,
          usr_password = sha256 (SHA256 E) (ui_password info)\<rparr> (usrs (db w))"
      and n: "ui_email info \<notin> usr_email ` usrs (db w)" and e: "\<not> contains j' ''error''" for i
  proof -
    from lc e obtain u t where u: "u \<in> usrs (db w')" "usr_email u = ui_email info"
        "usr_password u = sha256 (SHA256 E) (ui_password again)" "j' = login_answer t u"
      by blast
    then have "u = \<lparr>usr_id = i, usr_name = ui_name info, usr_email = ui_email info,
        usr_password = sha256 (SHA256 E) (ui_password info)\<rparr>"
      using i n by (metis image_eqI insertE)
    with u(3,4) show ?thesis by (simp add: sha256_def login_answer_def)
  qed
  with c r l show ?thesis by (auto split: if_splits)
qed

theorem register_then_login_witness:
  "\<exists>j w' j' w''. run_state (create_user ref_ext sample_login) ref_world = (j, w') \<and>
     run_state (login ref_ext sample_login) w' = (j', w'') \<and>
     (contains j ''error'' \<or> contains j' ''error'' \<or> member j' ''name'' = JString ''Ann'')"
  using register_then_login [OF ref_usr.pg_users_axioms ref_world_db, of sample_login sample_login] ref_jwt
  by (auto simp: sample_login_sel split: if_splits)

section \<open>Requests without a valid token\<close>

lemma unauthenticated:
  assumes "fst (run_state (get_user_id_from_token E (token c)) w) = None"
  shows "\<exists>w'. run_state (authenticated E c body) w =
    ((Inr FORBIDDEN_REQUEST, c\<lparr>json_res := error_text ''unauthorized''\<rparr>), w') \<and> same_but_log w w'"
proof -
  obtain w1 where "run_state (get_user_id_from_token E (token c)) w = (None, w1)"
    using assms by (metis prod.collapse)
  moreover from this have "same_but_log w w1" using token_same_but_log [of w E "token c"] by simp
  ultimately show ?thesis
    by (auto simp: authenticated_def reply_def intro: same_but_log_trans)
qed

lemmas protected_defs = handle_logout_def handle_get_resources_def handle_delete_resource_def
  handle_post_resource_def handle_put_resource_def handle_create_upload_url_def handle_create_download_url_def


lemma new_conn_unauthorized: "fst (run_state (get_user_id_from_token ref_ext (token new_conn)) ref_world) = None"
  by (simp add: get_user_id_from_token_def verify_jwt_and_get_user_id_def new_conn_def init_def)


lemma reply_same [simp]: "snd (run_state (reply code c) w) = w"
  by (simp add: reply_def)

lemma health_same [simp]: "snd (run_state (handle_health E c) w) = w"
  by (simp add: handle_health_def throw_def reply_def split: sum.splits)

lemma protected_same:
  assumes "fst (run_state (get_user_id_from_token E (token c)) w) = None"
  shows "same_but_log w (snd (run_state (authenticated E c body) w))"
  using unauthenticated [OF assms, of body] by fastforce

text \<open>
  C10: Dispatch. A request whose token does not resolve to a user, on any route and method except login
  and registration, changes nothing but the log, in the header phase and in the body phase; the
  stores, the cache, the connection pools and the object store stay as they are.
\<close>

theorem unauthenticated_confined:
  assumes "fst (run_state (get_user_id_from_token E (token c)) w) = None" "apireq c \<noteq> 2" "apireq c \<noteq> 4"
  shows "same_but_log w (snd (run_state (parse_headers E text c) w)) \<and>
    same_but_log w (snd (run_state (parse_content E text c) w))"
proof
  show "same_but_log w (snd (run_state (parse_headers E text c) w))"
    using protected_same [OF assms(1)] by (simp add: parse_headers_def protected_defs)
  have e: "token (end_body text c) = token c" "apireq (end_body text c) = apireq c"
    by (simp_all add: end_body_def)
  have "fst (run_state (get_user_id_from_token E (token (end_body text c))) w) = None" using assms(1) e by simp
  from protected_same [OF this] e assms(2,3) show "same_but_log w (snd (run_state (parse_content E text c) w))"
    by (simp add: parse_content_def protected_defs Let_def)
qed

theorem unauthenticated_confined_witness:
  "same_but_log ref_world (snd (run_state (parse_content ref_ext 0 (new_conn\<lparr>apireq := 1, m_method := PUT\<rparr>)) ref_world))"
proof -
  have "fst (run_state (get_user_id_from_token ref_ext (token (new_conn\<lparr>apireq := 1, m_method := PUT\<rparr>))) ref_world) = None"
    using new_conn_unauthorized by simp
  then show ?thesis
    by (rule conjunct2 [OF unauthenticated_confined]) simp_all
qed

section \<open>Uploaded files\<close>

lemma contains_sub_map:
  assumes "\<And>c. g c = CHR ''.'' \<Longrightarrow> c = CHR ''.''"
  shows "contains_sub (map g f) ''..'' \<Longrightarrow> contains_sub f ''..''"
proof (induction f)
  case (Cons c f)
  then show ?case
    using assms by (cases f) (auto simp: starts_with_def)
qed simp

lemma sanitize_no_traversal:
  assumes "\<not> has_path_traversal f"
  shows "\<not> has_path_traversal (sanitize_filename f)"
proof -
  let ?g = "\<lambda>c. if safe_char c then c else CHR ''_''"
  have dot: "c = CHR ''.''" if "?g c = CHR ''.''" for c using that by (cases "safe_char c") simp_all
  have "\<not> contains_sub f ''..''" using assms by (simp add: has_path_traversal_def)
  then have "\<not> contains_sub (map ?g f) ''..''" using contains_sub_map [of ?g f] dot by blast
  moreover have "sanitize_filename f = [] \<or> sanitize_filename f = map ?g f"
    by (simp add: sanitize_filename_def Let_def)
  ultimately have "\<not> contains_sub (sanitize_filename f) ''..''" by (elim disjE) simp_all
  moreover have "\<not> safe_char (CHR 0x5C)" by (simp add: safe_char_def isalnum_def isdigit_def isupper_def islower_def)
  then have "CHR 0x5C \<notin> set (sanitize_filename f)" using sanitize_safe [of "CHR 0x5C" f] by blast
  moreover have "CHR ''/'' \<notin> set (sanitize_filename f)" using sanitize_safe [of "CHR ''/''" f] not_safe_slash by blast
  ultimately show ?thesis by (simp add: has_path_traversal_def)
qed

lemma presigned_error:
  assumes "fst (run_state (create_presigned_url E m e b k x) w) = Inr up" "\<not> contains up ''error''"
  shows "\<exists>url. up = JObject [(''url'', JString url)]"
  using assms
  by (auto simp: create_presigned_url_def create_aws_sdk_presigned_url_def storage_error_def log_storage_error_def Let_def
      split: if_splits sum.splits)

text \<open>What a successful answer of \<^verbatim>\<open>create_upload_url\<close> says.\<close>

definition upload_answer :: "('db, 'rd, 'ob) externals \<Rightarrow> string \<Rightarrow> string \<Rightarrow> string \<Rightarrow> json" where
  "upload_answer E url key content_type = JObject
     [(''upload_url'', JString url), (''public_url'', JString (public_prefix (public_endpoint_of E) (bucket_of E) @ key)),
      (''object_key'', JString key), (''bucket'', JString (bucket_of E)), (''content_type'', JString content_type),
      (''expires_in'', JInt (get_storage_env_int (environ E) ''S3_UPLOAD_URL_EXPIRES'' ''MINIO_UPLOAD_URL_EXPIRES'' 300))]"

lemma upload_result:
  assumes "run_state (create_upload_url E u f ct) w = (j, w')"
  shows "contains j ''error'' \<or> (\<exists>url. j = upload_answer E url (upload_key u (clock_ms w) (sanitize_filename f)) ct \<and>
    sanitize_filename f \<noteq> '''' \<and> \<not> has_path_traversal f \<and> \<not> is_blocked_extension (sanitize_filename f) \<and>
    is_allowed_content_type ct \<and>
    int (length f) \<le> size_t_of (get_storage_env_int (environ E) ''S3_MAX_FILENAME_LENGTH'' ''MINIO_MAX_FILENAME_LENGTH'' 255))"
proof (rule disjCI)
  let ?k = "upload_key u (clock_ms w) (sanitize_filename f)"
  let ?x = "get_storage_env_int (environ E) ''S3_UPLOAD_URL_EXPIRES'' ''MINIO_UPLOAD_URL_EXPIRES'' 300"
  assume ok: "\<nexists>url. j = upload_answer E url ?k ct \<and>
    sanitize_filename f \<noteq> '''' \<and> \<not> has_path_traversal f \<and> \<not> is_blocked_extension (sanitize_filename f) \<and>
    is_allowed_content_type ct \<and>
    int (length f) \<le> size_t_of (get_storage_env_int (environ E) ''S3_MAX_FILENAME_LENGTH'' ''MINIO_MAX_FILENAME_LENGTH'' 255)"
  obtain up w1 where p: "run_state (create_presigned_url E HTTP_PUT (public_endpoint_of E) (bucket_of E) ?k ?x) w = (up, w1)"
    by (cases "run_state (create_presigned_url E HTTP_PUT (public_endpoint_of E) (bucket_of E) ?k ?x) w")
  have up: "\<exists>url. v = JObject [(''url'', JString url)]" if "up = Inr v" "\<not> contains v ''error''" for v
    using presigned_error [of E HTTP_PUT "public_endpoint_of E" "bucket_of E" ?k ?x w v] p that by simp
  show "contains j ''error''"
    using assms ok p up
    by (auto simp: create_upload_url_def storage_error_def log_storage_error_def storage_unavailable_def Let_def upload_answer_def public_prefix_def
        split: if_splits sum.splits)
qed

text \<open>
  C26: Uploads are confined. \<^verbatim>\<open>create_upload_url\<close> answers with an error or with an object key directly
  under \<^verbatim>\<open>users/<id>/uploads/\<close> of the requesting user; the name in it consists of letters, digits,
  dots, dashes and underscores, contains no parent-directory marker and no blocked extension, and the
  content type is allowed. The public URL it hands out addresses exactly that object when it is stored
  and later used for downloading or deleting.
\<close>

theorem upload_confined:
  "\<exists>j w'. run_state (create_upload_url E u f ct) w = (j, w') \<and> (contains j ''error'' \<or>
    (\<exists>url name. j = upload_answer E url (upload_key u (clock_ms w) name) ct \<and>
       list_all safe_char name \<and> length name = length f \<and> \<not> has_path_traversal name \<and>
       \<not> is_blocked_extension name \<and> is_allowed_content_type ct \<and>
       object_key_of E (public_prefix (public_endpoint_of E) (bucket_of E) @ upload_key u (clock_ms w) name) =
         upload_key u (clock_ms w) name))"
proof -
  obtain j w' where r: "run_state (create_upload_url E u f ct) w = (j, w')"
    by (cases "run_state (create_upload_url E u f ct) w")
  have "list_all safe_char (sanitize_filename f)" using sanitize_safe by (auto simp: list_all_iff)
  moreover have "object_key_of E (public_prefix (public_endpoint_of E) (bucket_of E) @ k) = k" for k
    by (simp add: object_key_of_def extract_prefixed)
  ultimately show ?thesis
    using upload_result [OF r] r sanitize_length [of f] sanitize_no_traversal [of f] by blast
qed

end
