(* ===== verification/Thread_Pool.thy ===== *)
theory Thread_Pool
  imports Prelude "HOL-Library.Multiset"
begin

text \<open>
  \<^verbatim>\<open>src/src/thread/threadpool.h\<close>: the bounded work queue, its counting semaphore and the worker
  loop. A request is a pointer, \<^const>\<open>None\<close> when null. Every access to shared state (the mutex
  section, a semaphore operation, a load or store of \<^verbatim>\<open>m_stop\<close>) is one step, so all
  interleavings of producers, workers and the destructor are covered. \<open>appended\<close>, \<open>popped\<close> and
  \<open>processed\<close> record the history.
\<close>

section \<open>Definitions\<close>

datatype 'r thread_pc =
    At_check                  \<comment> \<open>the condition of the worker loop\<close>
  | At_acquire                \<comment> \<open>blocked in, or about to call, \<^verbatim>\<open>m_queuestat.acquire()\<close>\<close>
  | At_recheck                \<comment> \<open>the second test of \<^verbatim>\<open>m_stop\<close>\<close>
  | At_pop                    \<comment> \<open>before the locked section\<close>
  | At_run "'r option"        \<comment> \<open>holding a request\<close>
  | Exited

record 'r threadpool =
  m_workqueue :: "'r option list"
  m_queuestat :: nat
  m_stop :: bool
  m_max_requests :: nat
  threads :: "'r thread_pc list"
  pushing :: nat              \<comment> \<open>calls of \<^verbatim>\<open>append\<close> between the push and \<^verbatim>\<open>release()\<close>\<close>
  appended :: "'r option list"
  popped :: "'r option list"
  processed :: "'r list"

text \<open>The constructor; the exception for non-positive arguments is \<^const>\<open>None\<close>.\<close>

definition threadpool_new :: "int \<Rightarrow> int \<Rightarrow> 'r threadpool option" where
  "threadpool_new thread_number max_requests =
     (if thread_number \<le> 0 \<or> max_requests \<le> 0 then None
      else Some \<lparr>m_workqueue = [], m_queuestat = 0, m_stop = False,
        m_max_requests = nat max_requests, threads = replicate (nat thread_number) At_check,
        pushing = 0, appended = [], popped = [], processed = []\<rparr>)"

text \<open>The locked section of \<^verbatim>\<open>append\<close>, with its result.\<close>

definition append_locked :: "'r option \<Rightarrow> 'r threadpool \<Rightarrow> bool \<times> 'r threadpool" where
  "append_locked request s =
     (if length (m_workqueue s) \<ge> m_max_requests s then (False, s)
      else (True, s\<lparr>m_workqueue := m_workqueue s @ [request], pushing := pushing s + 1,
                    appended := appended s @ [request]\<rparr>))"

text \<open>\<^verbatim>\<open>m_queuestat.release()\<close> of an \<^verbatim>\<open>append\<close> that has pushed.\<close>

definition append_release :: "'r threadpool \<Rightarrow> 'r threadpool" where
  "append_release s = s\<lparr>m_queuestat := m_queuestat s + 1, pushing := pushing s - 1\<rparr>"

text \<open>\<^verbatim>\<open>append\<close> without interference: push and release.\<close>

definition append :: "'r option \<Rightarrow> 'r threadpool \<Rightarrow> bool \<times> 'r threadpool" where
  "append request s =
     (case append_locked request s of
        (False, s') \<Rightarrow> (False, s')
      | (True, s') \<Rightarrow> (True, append_release s'))"

text \<open>The destructor sets the flag and releases one token per worker.\<close>

definition threadpool_stop :: "'r threadpool \<Rightarrow> 'r threadpool" where
  "threadpool_stop s = s\<lparr>m_stop := True, m_queuestat := m_queuestat s + length (threads s)\<rparr>"

text \<open>One step of the worker loop from a program counter; \<^const>\<open>None\<close> when it blocks.\<close>

fun run_step :: "nat \<Rightarrow> 'r thread_pc \<Rightarrow> 'r threadpool \<Rightarrow> 'r threadpool option" where
  "run_step i At_check s =
     Some (s\<lparr>threads := (threads s)[i := if m_stop s then Exited else At_acquire]\<rparr>)"
| "run_step i At_acquire s =
     (if m_queuestat s = 0 then None
      else Some (s\<lparr>m_queuestat := m_queuestat s - 1, threads := (threads s)[i := At_recheck]\<rparr>))"
| "run_step i At_recheck s =
     Some (s\<lparr>threads := (threads s)[i := if m_stop s then Exited else At_pop]\<rparr>)"
| "run_step i At_pop s =
     (case m_workqueue s of
        [] \<Rightarrow> Some (s\<lparr>threads := (threads s)[i := At_check]\<rparr>)
      | r # rest \<Rightarrow> Some (s\<lparr>m_workqueue := rest, popped := popped s @ [r],
                            threads := (threads s)[i := At_run r]\<rparr>))"
| "run_step i (At_run None) s = Some (s\<lparr>threads := (threads s)[i := At_check]\<rparr>)"
| "run_step i (At_run (Some r)) s =
     Some (s\<lparr>processed := processed s @ [r], threads := (threads s)[i := At_check]\<rparr>)"
| "run_step i Exited s = None"

inductive tp_step :: "'r threadpool \<Rightarrow> 'r threadpool \<Rightarrow> bool" where
  step_append: "append_locked r s = (True, t) \<Longrightarrow> tp_step s t"
| step_release: "0 < pushing s \<Longrightarrow> tp_step s (append_release s)"
| step_stop: "\<not> m_stop s \<Longrightarrow> tp_step s (threadpool_stop s)"
| step_run: "i < length (threads s) \<Longrightarrow> run_step i (threads s ! i) s = Some t \<Longrightarrow> tp_step s t"

inductive_cases tp_stepE: "tp_step s t"

definition tp_start :: "'r threadpool \<Rightarrow> bool" where
  "tp_start s = (\<exists>n m. threadpool_new n m = Some s)"

section \<open>Invariant\<close>

abbreviation claims_token :: "'r thread_pc \<Rightarrow> bool" where
  "claims_token p \<equiv> p = At_recheck \<or> p = At_pop"

abbreviation waits :: "'r thread_pc \<Rightarrow> bool" where
  "waits p \<equiv> p = At_acquire"

fun run_req :: "'r thread_pc \<Rightarrow> 'r list" where
  "run_req (At_run (Some r)) = [r]"
| "run_req _ = []"

text \<open>
  History: what was appended is what was popped followed by what is queued. Capacity: the queue
  never exceeds its bound. Tokens: before the stop every queued element is covered; after it every
  worker that may still wait has a token.
\<close>

definition tp_inv :: "'r threadpool \<Rightarrow> bool" where
  "tp_inv s =
     (appended s = popped s @ m_workqueue s \<and>
      length (m_workqueue s) \<le> m_max_requests s \<and>
      (\<not> m_stop s \<longrightarrow> m_queuestat s + how_many claims_token (threads s) + pushing s =
         length (m_workqueue s)) \<and>
      (m_stop s \<longrightarrow> how_many waits (threads s) \<le> m_queuestat s) \<and>
      (\<not> m_stop s \<longrightarrow> Exited \<notin> set (threads s)))"

lemma exited_update: "x \<noteq> Exited \<Longrightarrow> Exited \<notin> set ts \<Longrightarrow> Exited \<notin> set (ts[i := x])"
  using set_update_subset_insert [of ts i x] by auto

lemmas count_rules = how_many_gain how_many_same exited_update

lemma tp_start_inv: "tp_start s \<Longrightarrow> tp_inv s"
  by (auto simp: tp_start_def threadpool_new_def tp_inv_def how_many_def split: if_splits)

lemma run_step_inv:
  assumes inv: "tp_inv s" and i: "i < length (threads s)" and run: "run_step i (threads s ! i) s = Some t"
  shows "tp_inv t"
proof (cases "threads s ! i")
  case At_check
  with assms show ?thesis
    by (cases "m_stop s") (auto simp: tp_inv_def count_rules)
next
  case At_acquire
  have "how_many claims_token ((threads s)[i := At_recheck]) = Suc (how_many claims_token (threads s))"
    using At_acquire i by (simp add: how_many_gain)
  moreover have "Suc (how_many waits ((threads s)[i := At_recheck])) = how_many waits (threads s)"
    using At_acquire i by (simp add: how_many_lose)
  ultimately show ?thesis
    using assms At_acquire by (auto simp: tp_inv_def count_rules split: if_splits)
next
  case At_recheck
  with assms show ?thesis
    by (cases "m_stop s") (auto simp: tp_inv_def count_rules)
next
  case At_pop
  have lose: "Suc (how_many claims_token ((threads s)[i := y])) = how_many claims_token (threads s)"
    if "\<not> claims_token y" for y
    using At_pop i that by (simp add: how_many_lose)
  show ?thesis
  proof (cases "m_workqueue s")
    case Nil
    with inv i At_pop have "m_stop s"
      using how_many_pos [of i "threads s" claims_token] by (auto simp: tp_inv_def)
    with assms At_pop Nil show ?thesis
      by (auto simp: tp_inv_def count_rules)
  next
    case (Cons r rest)
    with assms At_pop lose [of "At_run r"] show ?thesis
      by (auto simp: tp_inv_def count_rules)
  qed
next
  case (At_run r)
  with assms show ?thesis
    by (cases r) (auto simp: tp_inv_def count_rules)
next
  case Exited
  with run show ?thesis by simp
qed

lemma tp_step_inv:
  assumes inv: "tp_inv s" and step: "tp_step s t"
  shows "tp_inv t"
  using step
proof cases
  case (step_append r)
  with inv show ?thesis
    by (auto simp: append_locked_def tp_inv_def split: if_splits)
next
  case step_release
  with inv show ?thesis
    by (auto simp: append_release_def tp_inv_def)
next
  case step_stop
  with inv how_many_le [of waits "threads s"] show ?thesis
    by (auto simp: threadpool_stop_def tp_inv_def)
next
  case (step_run i)
  with inv show ?thesis by (blast intro: run_step_inv)
qed

interpretation tp: token_queue tp_start tp_step tp_inv "\<lambda>s. \<not> m_stop s" m_queuestat
    "\<lambda>s. how_many claims_token (threads s)" pushing m_workqueue
proof unfold_locales
  show "tp_start s \<Longrightarrow> tp_inv s" for s :: "'r threadpool"
    by (rule tp_start_inv)
  show "tp_inv s \<Longrightarrow> tp_step s t \<Longrightarrow> tp_inv t" for s t :: "'r threadpool"
    by (rule tp_step_inv)
qed (simp add: tp_inv_def)

section \<open>Consequences\<close>

text \<open>A worker that is not done and not blocked on an empty semaphore can move.\<close>

lemma run_step_enabled:
  "p \<noteq> Exited \<Longrightarrow> p = At_acquire \<longrightarrow> 0 < m_queuestat s \<Longrightarrow> \<exists>t. run_step i p s = Some t"
  by (cases p) (auto split: list.splits option.splits, metis option.exhaust run_step.simps(5,6))

lemma stopped_progress:
  assumes "reachable tp_start tp_step s" "m_stop s" "i < length (threads s)" "threads s ! i \<noteq> Exited"
  shows "\<exists>t. run_step i (threads s ! i) s = Some t"
proof (rule run_step_enabled)
  from tp.reachable_inv [OF assms(1)] have "how_many waits (threads s) \<le> m_queuestat s"
    using assms(2) by (simp add: tp_inv_def)
  then show "threads s ! i = At_acquire \<longrightarrow> 0 < m_queuestat s"
    using how_many_pos [of i "threads s" waits] assms(3) by auto
qed (rule assms(4))

text \<open>What the workers processed or are running is what was popped.\<close>

definition in_flight :: "'r thread_pc list \<Rightarrow> 'r multiset" where
  "in_flight ts = mset (concat (map run_req ts))"

definition tp_work :: "'r threadpool \<Rightarrow> bool" where
  "tp_work s = (mset (processed s) + in_flight (threads s) = mset (List.map_filter id (popped s)))"

lemma in_flight_update:
  "i < length ts \<Longrightarrow>
   in_flight (ts[i := x]) + mset (run_req (ts ! i)) = in_flight ts + mset (run_req x)"
proof (induction ts arbitrary: i)
  case Nil
  then show ?case by simp
next
  case (Cons y ts)
  then show ?case
    by (cases i) (auto simp: in_flight_def add.commute add.left_commute)
qed

lemma in_flight_idle:
  "i < length ts \<Longrightarrow> run_req (ts ! i) = [] \<Longrightarrow> in_flight (ts[i := x]) = in_flight ts + mset (run_req x)"
  using in_flight_update [of i ts x] by simp

lemma in_flight_done:
  "i < length ts \<Longrightarrow> ts ! i = At_run (Some r) \<Longrightarrow> add_mset r (in_flight (ts[i := At_check])) = in_flight ts"
  using in_flight_update [of i ts At_check] by simp

lemma map_filter_snoc: "List.map_filter f (xs @ [x]) = List.map_filter f xs @ (case f x of None \<Rightarrow> [] | Some y \<Rightarrow> [y])"
  by (simp add: List.map_filter_def split: option.splits)

lemma run_step_work:
  assumes work: "tp_work s" and i: "i < length (threads s)" and run: "run_step i (threads s ! i) s = Some t"
  shows "tp_work t"
proof (cases "threads s ! i")
  case (At_run r)
  show ?thesis
  proof (cases r)
    case None
    with assms At_run show ?thesis by (auto simp: tp_work_def in_flight_idle)
  next
    case (Some x)
    with assms At_run in_flight_done [of i "threads s" x] show ?thesis
      by (auto simp: tp_work_def) (metis union_mset_add_mset_right)
  qed
next
  case At_pop
  with assms show ?thesis
    by (auto simp: tp_work_def in_flight_idle map_filter_snoc split: list.splits option.splits)
qed (use assms in \<open>auto simp: tp_work_def in_flight_idle split: if_splits\<close>)

lemma tp_step_work:
  assumes "tp_work s" "tp_step s t"
  shows "tp_work t"
  using assms(2)
proof cases
  case (step_run i)
  with assms(1) show ?thesis by (blast intro: run_step_work)
qed (use assms(1) in \<open>auto simp: tp_work_def append_locked_def append_release_def threadpool_stop_def
       split: if_splits\<close>)

lemma tp_start_work: "tp_start s \<Longrightarrow> tp_work s"
  by (auto simp: tp_start_def threadpool_new_def tp_work_def in_flight_def List.map_filter_def
      split: if_splits)

interpretation tw: invariant_system tp_start tp_step tp_work
proof unfold_locales
  show "tp_start s \<Longrightarrow> tp_work s" for s :: "'r threadpool"
    by (rule tp_start_work)
  show "tp_work s \<Longrightarrow> tp_step s t \<Longrightarrow> tp_work t" for s t :: "'r threadpool"
    by (rule tp_step_work)
qed

text \<open>After the stop every worker step decreases a rank, so the joins of the destructor return.\<close>

fun pc_rank :: "'r thread_pc \<Rightarrow> nat" where
  "pc_rank At_check = 1"
| "pc_rank At_acquire = 2"
| "pc_rank At_recheck = 1"
| "pc_rank At_pop = 3"
| "pc_rank (At_run r) = 2"
| "pc_rank Exited = 0"

definition pool_rank :: "'r threadpool \<Rightarrow> nat" where
  "pool_rank s = sum_list (map pc_rank (threads s))"

lemma sum_list_rank_update:
  "i < length ts \<Longrightarrow> f x < f (ts ! i) \<Longrightarrow> sum_list (map f (ts[i := x])) < sum_list (map (f :: _ \<Rightarrow> nat) ts)"
proof (induction ts arbitrary: i)
  case Nil
  then show ?case by simp
next
  case (Cons y ts)
  then show ?case by (cases i) auto
qed

lemma stopped_rank:
  assumes "m_stop s" "i < length (threads s)" "run_step i (threads s ! i) s = Some t"
  shows "pool_rank t < pool_rank s"
proof -
  obtain y where y: "threads t = (threads s)[i := y]" "pc_rank y < pc_rank (threads s ! i)"
    using assms by (cases "(i, threads s ! i, s)" rule: run_step.cases) (auto split: if_splits list.splits)
  then show ?thesis
    unfolding pool_rank_def y(1) by (intro sum_list_rank_update assms(2))
qed

section \<open>Correctness\<close>

text \<open>A reachable pool for the witnesses: one worker, room for two, one request appended.\<close>

definition tp_one :: "nat threadpool" where
  "tp_one = snd (append_locked (Some 7) (the (threadpool_new 1 2)))"

lemma tp_one_reachable: "reachable tp_start tp_step tp_one"
proof (rule reach_step)
  have "tp_start (the (threadpool_new 1 2) :: nat threadpool)"
    unfolding tp_start_def by (intro exI [of _ 1] exI [of _ 2]) (simp add: threadpool_new_def)
  then show "reachable tp_start tp_step (the (threadpool_new 1 2) :: nat threadpool)"
    by (rule reach_start)
  show "tp_step (the (threadpool_new 1 2)) tp_one"
    by (rule step_append [of "Some 7"]) (simp add: tp_one_def threadpool_new_def append_locked_def)
qed

text \<open>
  C14: Under every interleaving of producers, workers and the destructor, requests leave the work
  queue in the order they were accepted, none is lost or duplicated in the queue, and the queue never
  exceeds \<^verbatim>\<open>m_max_requests\<close>; every request a worker took is being processed by exactly one worker or has
  been processed exactly once, and nothing else was ever processed.
\<close>

theorem work_queue_fifo:
  assumes "reachable tp_start tp_step s"
  shows "appended s = popped s @ m_workqueue s \<and> length (m_workqueue s) \<le> m_max_requests s \<and>
    mset (processed s) + in_flight (threads s) = mset (List.map_filter id (popped s))"
  using tp.reachable_inv [OF assms] tw.reachable_inv [OF assms] by (simp add: tp_inv_def tp_work_def)

theorem work_queue_fifo_witness:
  "appended tp_one = popped tp_one @ m_workqueue tp_one \<and> length (m_workqueue tp_one) \<le> m_max_requests tp_one \<and>
   mset (processed tp_one) + in_flight (threads tp_one) = mset (List.map_filter id (popped tp_one))"
  by (rule work_queue_fifo [OF tp_one_reachable])

text \<open>
  Until the pool is stopped a worker that got past the semaphore finds a request: the branch of
  the worker loop for an empty queue is not taken.
\<close>

theorem woken_worker_finds_work:
  assumes "reachable tp_start tp_step s" "\<not> m_stop s" "i < length (threads s)"
    "threads s ! i = At_recheck \<or> threads s ! i = At_pop"
  shows "m_workqueue s \<noteq> []"
  using tp.claimed_nonempty [OF assms(1)] how_many_pos [of i "threads s" claims_token] assms by simp

text \<open>
  Shutdown. Once the destructor has set \<^verbatim>\<open>m_stop\<close> and released its tokens, no worker is stuck:
  each one that has not exited can take a step, and every worker step lowers the rank of the pool,
  so the joins of the destructor return.
\<close>

theorem shutdown_completes:
  assumes "reachable tp_start tp_step s" "m_stop s" "i < length (threads s)" "threads s ! i \<noteq> Exited"
  shows "\<exists>t. run_step i (threads s ! i) s = Some t \<and> tp_step s t \<and> m_stop t \<and> pool_rank t < pool_rank s"
proof -
  obtain t where t: "run_step i (threads s ! i) s = Some t"
    using stopped_progress [OF assms] by blast
  moreover have "m_stop t"
    using t assms(2) by (cases "(i, threads s ! i, s)" rule: run_step.cases) (auto split: if_splits list.splits)
  ultimately show ?thesis
    using step_run [OF assms(3) t] stopped_rank [OF assms(2,3) t] by blast
qed

end
