(* ===== verification/Main_Loop.thy ===== *)
theory Main_Loop
  imports Http_Conn Thread_Pool Redis_Client
begin

text \<open>
  \<^verbatim>\<open>src/src/main.cpp\<close>: the start of the process and its event loop, composed with the worker threads.
  The state of the server is the array of connections, the epoll registry, the thread pool, the events
  of the current \<^verbatim>\<open>epoll_wait\<close> batch that are still to be handled, and the world of the handlers. The
  main thread and the workers interleave: one step is the return of \<^verbatim>\<open>epoll_wait\<close>, the handling of one
  event, or one step of one worker, where a worker that holds a request runs \<^verbatim>\<open>process()\<close> as one step.
  The replies of the kernel (\<^verbatim>\<open>accept\<close>, \<^verbatim>\<open>recv\<close>, \<^verbatim>\<open>writev\<close>, \<^verbatim>\<open>epoll_wait\<close>) are arguments.
\<close>

section \<open>State\<close>

definition DEFAULT_MAX_FD :: int where "DEFAULT_MAX_FD = 4096"
definition MAX_EVENT_NUMBER :: nat where "MAX_EVENT_NUMBER = 4096"

record ('db, 'rd, 'ob) server =
  listenfd :: int
  max_fd :: int
  users :: "int \<Rightarrow> http_conn"
  netw :: net
  workers :: "int threadpool"
  batch :: "(int \<times> epoll_flag set) list"
  wrld :: "('db, 'rd, 'ob) world"

definition server_log :: "LogLevel \<Rightarrow> string \<Rightarrow> ('db, 'rd, 'ob) server \<Rightarrow> ('db, 'rd, 'ob) server" where
  "server_log level message s = s\<lparr>wrld := snd (run_state (log level message) (wrld s))\<rparr>"

section \<open>Start\<close>

text \<open>The configuration checks: the value of \<^verbatim>\<open>MAX_FD\<close>, or \<^const>\<open>None\<close> for \<^verbatim>\<open>return 1\<close>.\<close>

definition check_config :: "('db, 'rd, 'ob) externals \<Rightarrow> ('db, 'rd, 'ob, int option) action" where
  "check_config E =
     (let jwt_secret = get_env_or_default (environ E) ''JWT_SECRET'' '''';
          jwt_expires_seconds = get_env_int_or_default (environ E) ''JWT_EXPIRES_SECONDS'' 3600;
          fds = get_env_int_or_default (environ E) ''MAX_FD'' DEFAULT_MAX_FD in
      if jwt_secret = '''' \<or> jwt_expires_seconds \<le> 0 then do {
        log ERROR ''invalid JWT configuration'';
        State_Monad.return None }
      else if fds \<le> 0 then do {
        log ERROR ''invalid MAX_FD configuration'';
        State_Monad.return None }
      else State_Monad.return (Some fds))"

text \<open>The log lines of the \<^verbatim>\<open>threadpool\<close> constructor, one per created thread.\<close>

fun log_threads :: "nat \<Rightarrow> nat \<Rightarrow> ('db, 'rd, 'ob, unit) action" where
  "log_threads i 0 = State_Monad.return ()"
| "log_threads i (Suc n) = do {
     log INFO (''Create thread '' @ to_string (int i));
     log_threads (Suc i) n }"

text \<open>\<^verbatim>\<open>new threadpool(thread_number, max_requests)\<close>; the exception makes \<^verbatim>\<open>main\<close> exit.\<close>

definition start_workers :: "int \<Rightarrow> int \<Rightarrow> ('db, 'rd, 'ob, 'r threadpool option) action" where
  "start_workers thread_number max_requests =
     (case threadpool_new thread_number max_requests of
        None \<Rightarrow> State_Monad.return None
      | Some p \<Rightarrow> do { log_threads 0 (nat thread_number); State_Monad.return (Some p) })"

text \<open>\<^verbatim>\<open>connPool->init(...)\<close>; \<open>connect\<close> stands for \<^verbatim>\<open>PQconnectdb\<close>. The flag is false when the process exits.\<close>

definition start_database :: "('db, 'rd, 'ob) externals \<Rightarrow> (nat \<Rightarrow> string \<Rightarrow> string + PGconn) \<Rightarrow>
    ('db, 'rd, 'ob, bool) action" where
  "start_database E connect = do {
     w \<leftarrow> State_Monad.get;
     (case pool_init connect
             (get_env_or_default (environ E) ''POSTGRES_HOST'' ''postgres'')
             (get_env_or_default (environ E) ''POSTGRES_USER'' ''webuser'')
             (get_env_or_default (environ E) ''POSTGRES_PASSWORD'' ''webpass123'')
             (get_env_or_default (environ E) ''POSTGRES_DB'' ''webdb'')
             (get_env_int_or_default (environ E) ''POSTGRES_PORT'' 5432) 10 (pg_pool w) of
        Inl error \<Rightarrow> do {
          State_Monad.update (\<lambda>w. w\<lparr>console := console w @ ''PostgreSQL connect error: '' @ error @ [LF]\<rparr>);
          log ERROR (''PostgreSQL connect error: '' @ error);
          State_Monad.return False }
      | Inr p \<Rightarrow> do {
          State_Monad.update (\<lambda>w. w\<lparr>pg_pool := p\<rparr>);
          State_Monad.return True })
   }"

definition start_cache :: "('db, 'rd, 'ob) externals \<Rightarrow> ('db, 'rd, 'ob, unit) action" where
  "start_cache E =
     (if env_enabled (environ E) ''REDIS_ENABLED'' then do {
        redis_ok \<leftarrow> redis_init E
          (get_env_or_default (environ E) ''REDIS_HOST'' ''localhost'')
          (get_env_int_or_default (environ E) ''REDIS_PORT'' 6379)
          (get_env_or_default (environ E) ''REDIS_PASSWORD'' '''')
          (env_enabled (environ E) ''REDIS_TLS'');
        if \<not> redis_ok then log ERROR ''Redis cache disabled; continuing without cache''
        else State_Monad.return () }
      else log INFO ''Redis cache disabled by configuration'')"

text \<open>
  \<^verbatim>\<open>main\<close> up to the event loop: an exit status, or the descriptor limit and the worker pool.
  \<open>argc\<close> counts the program name; \<open>sock\<close> is the result of \<^verbatim>\<open>socket\<close>.
\<close>

definition boot :: "('db, 'rd, 'ob) externals \<Rightarrow> (nat \<Rightarrow> string \<Rightarrow> string + PGconn) \<Rightarrow> nat \<Rightarrow> string \<Rightarrow> int \<Rightarrow>
    ('db, 'rd, 'ob, int + (int \<times> int threadpool)) action" where
  "boot E connect argc program sock =
     (if argc \<le> 1 then do {
        State_Monad.update (\<lambda>w. w\<lparr>console := console w @ ''Run based on the format below: '' @ program @ '' port_number'' @ [LF]\<rparr>);
        State_Monad.return (Inl (- 1)) }
      else do {
        config \<leftarrow> check_config E;
        (case config of
           None \<Rightarrow> State_Monad.return (Inl 1)
         | Some fds \<Rightarrow> do {
             created \<leftarrow> start_workers 10 10000;
             (case created of
                None \<Rightarrow> State_Monad.return (Inl (- 1))
              | Some p \<Rightarrow> do {
                  connected \<leftarrow> start_database E connect;
                  if \<not> connected then State_Monad.return (Inl 1)
                  else do {
                    start_cache E;
                    if sock = - 1 then do {
                      log ERROR ''listen socket fails.'';
                      State_Monad.return (Inl 1) }
                    else State_Monad.return (Inr (fds, p)) } }) })
      })"

text \<open>
  The server as the event loop finds it: nothing is registered but the listening socket, and the
  elements of \<^verbatim>\<open>users\<close> are as \<^verbatim>\<open>new http_conn[max_fd]\<close> leaves them.
\<close>

definition empty_net :: "int set \<Rightarrow> net" where
  "empty_net opened = \<lparr>interest = (\<lambda>_. None), nonblocking = {}, open_fds = opened, m_user_count = 0\<rparr>"

definition serve :: "int \<Rightarrow> (int \<Rightarrow> http_conn) \<Rightarrow> int set \<Rightarrow> int \<Rightarrow> int threadpool \<Rightarrow>
    ('db, 'rd, 'ob) world \<Rightarrow> ('db, 'rd, 'ob) server" where
  "serve sock objects0 opened fds p w =
     \<lparr>listenfd = sock, max_fd = fds, users = objects0, netw = addfd sock False (empty_net opened),
      workers = p, batch = [], wrld = w\<rparr>"

section \<open>One event\<close>

datatype accept_result = Accepted int | Accept_failed int

record kernel_replies =
  k_accept :: accept_result
  k_segments :: "string list"
  k_recv_end :: recv_end
  k_accepted :: "nat list"
  k_send_end :: send_end

definition close_fd :: "int \<Rightarrow> net \<Rightarrow> net" where
  "close_fd fd n = n\<lparr>open_fds := open_fds n - {fd}\<rparr>"

text \<open>A new connection; \<^verbatim>\<open>accept\<close> opens the descriptor it returns.\<close>

definition on_accept :: "accept_result \<Rightarrow> ('db, 'rd, 'ob) server \<Rightarrow> ('db, 'rd, 'ob) server" where
  "on_accept r s =
     (case r of
        Accept_failed errno \<Rightarrow> server_log ERROR (''accept error, errno='' @ to_string errno) s
      | Accepted connfd \<Rightarrow>
          let n = (netw s)\<lparr>open_fds := insert connfd (open_fds (netw s))\<rparr> in
          if m_user_count n \<ge> max_fd s \<or> connfd \<ge> max_fd s then s\<lparr>netw := close_fd connfd n\<rparr>
          else let (c, n') = init_conn connfd (users s connfd) n
               in s\<lparr>users := (users s)(connfd := c), netw := n'\<rparr>)"

definition close_user :: "int \<Rightarrow> ('db, 'rd, 'ob) server \<Rightarrow> ('db, 'rd, 'ob) server" where
  "close_user fd s =
     (let (c, n) = close_conn (users s fd) (netw s)
      in s\<lparr>users := (users s)(fd := c), netw := n\<rparr>)"

text \<open>\<^verbatim>\<open>pool->append(users + sockfd)\<close>; its result is not used.\<close>

definition submit :: "int \<Rightarrow> ('db, 'rd, 'ob) server \<Rightarrow> ('db, 'rd, 'ob) server" where
  "submit fd s =
     (case append (Some fd) (workers s) of
        (True, p) \<Rightarrow> s\<lparr>workers := p\<rparr>
      | (False, p) \<Rightarrow> server_log ERROR ''thread pool queue is full; request rejected'' (s\<lparr>workers := p\<rparr>))"

definition on_readable :: "kernel_replies \<Rightarrow> int \<Rightarrow> ('db, 'rd, 'ob) server \<Rightarrow> ('db, 'rd, 'ob) server" where
  "on_readable k fd s =
     (let (ok, c) = read (k_segments k) (k_recv_end k) (users s fd);
          s1 = s\<lparr>users := (users s)(fd := c)\<rparr>
      in if ok then submit fd s1 else close_user fd s1)"

definition on_writable :: "kernel_replies \<Rightarrow> int \<Rightarrow> ('db, 'rd, 'ob) server \<Rightarrow> ('db, 'rd, 'ob) server" where
  "on_writable k fd s =
     (let (ok, sent, c, n) = conn_write (k_accepted k) (k_send_end k) (users s fd) (netw s);
          s1 = s\<lparr>users := (users s)(fd := c), netw := n\<rparr>
      in if ok then s1 else close_user fd s1)"

definition handle_event :: "kernel_replies \<Rightarrow> int \<times> epoll_flag set \<Rightarrow> ('db, 'rd, 'ob) server \<Rightarrow>
    ('db, 'rd, 'ob) server" where
  "handle_event k ev s =
     (if fst ev = listenfd s then on_accept (k_accept k) s
      else if snd ev \<inter> {EPOLLRDHUP, EPOLLHUP, EPOLLERR} \<noteq> {} then close_user (fst ev) s
      else if EPOLLIN \<in> snd ev then on_readable k (fst ev) s
      else if EPOLLOUT \<in> snd ev then on_writable k (fst ev) s
      else s)"

section \<open>The loop and the workers\<close>

text \<open>
  What \<^verbatim>\<open>epoll_wait\<close> may return: distinct descriptors with something enabled, each with events it was
  enabled for or a hang-up or error, which need not be enabled. Returning them disables the one-shot ones.
\<close>

definition reportable :: "net \<Rightarrow> int \<Rightarrow> epoll_flag set" where
  "reportable n fd = (case interest n fd of
     None \<Rightarrow> {}
   | Some fl \<Rightarrow> if fl = {} then {} else (fl \<inter> {EPOLLIN, EPOLLOUT, EPOLLRDHUP}) \<union> {EPOLLHUP, EPOLLERR})"

definition batch_ok :: "net \<Rightarrow> (int \<times> epoll_flag set) list \<Rightarrow> bool" where
  "batch_ok n evs = (distinct (map fst evs) \<and> length evs \<le> MAX_EVENT_NUMBER \<and>
     list_all (\<lambda>(fd, fl). fl \<noteq> {} \<and> fl \<subseteq> reportable n fd) evs)"

definition wait_returns :: "(int \<times> epoll_flag set) list \<Rightarrow> ('db, 'rd, 'ob) server \<Rightarrow> ('db, 'rd, 'ob) server" where
  "wait_returns evs s = s\<lparr>batch := evs, netw := fold deliver (map fst evs) (netw s)\<rparr>"

text \<open>One step of worker \<open>i\<close>; a worker at \<^verbatim>\<open>request->process()\<close> runs it on its connection.\<close>

definition run_process :: "('db, 'rd, 'ob) externals \<Rightarrow> int \<Rightarrow> ('db, 'rd, 'ob) server \<Rightarrow> ('db, 'rd, 'ob) server" where
  "run_process E fd s =
     (let ((c, n), w) = run_state (process E (users s fd) (netw s)) (wrld s)
      in s\<lparr>users := (users s)(fd := c), netw := n, wrld := w\<rparr>)"

definition worker_step :: "('db, 'rd, 'ob) externals \<Rightarrow> nat \<Rightarrow> ('db, 'rd, 'ob) server \<Rightarrow>
    ('db, 'rd, 'ob) server option" where
  "worker_step E i s =
     map_option (\<lambda>p. (case threads (workers s) ! i of At_run (Some fd) \<Rightarrow> run_process E fd s | _ \<Rightarrow> s)\<lparr>workers := p\<rparr>)
       (run_step i (threads (workers s) ! i) (workers s))"

text \<open>A descriptor returned by \<^verbatim>\<open>accept\<close> is a non-negative number that was not open.\<close>

fun accept_ok :: "accept_result \<Rightarrow> net \<Rightarrow> bool" where
  "accept_ok (Accepted fd) n = (0 \<le> fd \<and> fd \<notin> open_fds n)"
| "accept_ok (Accept_failed e) n = True"

inductive server_step :: "('db, 'rd, 'ob) externals \<Rightarrow> ('db, 'rd, 'ob) server \<Rightarrow> ('db, 'rd, 'ob) server \<Rightarrow> bool"
  for E :: "('db, 'rd, 'ob) externals" where
  step_wait: "batch s = [] \<Longrightarrow> batch_ok (netw s) evs \<Longrightarrow> server_step E s (wait_returns evs s)"
| step_event: "batch s = ev # rest \<Longrightarrow> accept_ok (k_accept k) (netw s) \<Longrightarrow>
    server_step E s (handle_event k ev (s\<lparr>batch := rest\<rparr>))"
| step_worker: "i < length (threads (workers s)) \<Longrightarrow> worker_step E i s = Some t \<Longrightarrow> server_step E s t"

inductive_cases server_stepE: "server_step E s t"

text \<open>The states \<^const>\<open>boot\<close> and \<^const>\<open>serve\<close> lead to.\<close>

definition server_start :: "('db, 'rd, 'ob) externals \<Rightarrow> ('db, 'rd, 'ob) server \<Rightarrow> bool" where
  "server_start E s = (\<exists>connect argc program sock w fds p w' objects0 opened.
     run_state (boot E connect argc program sock) w = (Inr (fds, p), w') \<and> 0 \<le> sock \<and> sock \<in> opened \<and>
     s = serve sock objects0 opened fds p w')"

lemma server_startI:
  assumes "run_state (boot E connect argc program sock) w = (Inr (fds, p), w')" "0 \<le> sock" "sock \<in> opened"
  shows "server_start E (serve sock objects0 opened fds p w')"
  unfolding server_start_def by (intro exI conjI) (rule assms refl)+

section \<open>Invariant\<close>

text \<open>
  The places that hold a reference to a connection: the registry while the descriptor is enabled, the
  events still to be handled, the work queue and the workers. \<open>owners\<close> counts them.
\<close>

definition pool_count :: "int \<Rightarrow> int threadpool \<Rightarrow> nat" where
  "pool_count fd p = count_list (m_workqueue p) (Some fd) + how_many (\<lambda>q. q = At_run (Some fd)) (threads p)"

definition events_of :: "int \<Rightarrow> (int \<times> epoll_flag set) list \<Rightarrow> (int \<times> epoll_flag set) list" where
  "events_of fd evs = filter (\<lambda>e. fst e = fd) evs"

definition owners :: "int \<Rightarrow> ('db, 'rd, 'ob) server \<Rightarrow> nat" where
  "owners fd s = (if armed (netw s) fd then 1 else 0) + length (events_of fd (batch s)) +
     pool_count fd (workers s)"

text \<open>
  What holds of one client descriptor, as a predicate on the parts of the state that mention it. A
  descriptor that is not registered is referred to nowhere. A registered one has at most one owner, and
  exactly one if the work queue has room for every descriptor; its slot of \<^verbatim>\<open>users\<close> is its own, and
  the response buffer is empty wherever the next thing to happen is reading or processing.
\<close>

definition conn_ok :: "int \<Rightarrow> epoll_flag set option \<Rightarrow> http_conn \<Rightarrow> bool \<Rightarrow> (int \<times> epoll_flag set) list \<Rightarrow>
    nat \<Rightarrow> nat \<Rightarrow> int \<Rightarrow> bool" where
  "conn_ok fd reg c opened evs k cap lim =
     (case reg of
        None \<Rightarrow> evs = [] \<and> k = 0
      | Some fl \<Rightarrow>
          (if fl = {} then 0 else 1) + length evs + k \<le> 1 \<and>
          (lim \<le> int cap \<longrightarrow> (if fl = {} then 0 else 1) + length evs + k = 1) \<and>
          m_sockfd c = fd \<and> 0 \<le> fd \<and> fd < lim \<and> opened \<and> (fl = {} \<or> EPOLLONESHOT \<in> fl) \<and>
          list_all (\<lambda>e. snd e - {EPOLLONESHOT} \<noteq> {}) evs \<and>
          (EPOLLIN \<in> fl \<or> (\<exists>e \<in> set evs. EPOLLIN \<in> snd e) \<or> 0 < k \<longrightarrow> fresh_response c))"

definition conn_inv :: "int \<Rightarrow> ('db, 'rd, 'ob) server \<Rightarrow> bool" where
  "conn_inv fd s = conn_ok fd (interest (netw s) fd) (users s fd) (fd \<in> open_fds (netw s))
     (events_of fd (batch s)) (pool_count fd (workers s)) (m_max_requests (workers s)) (max_fd s)"

definition registry :: "int \<Rightarrow> net \<Rightarrow> bool" where
  "registry l n = (interest n l = Some {EPOLLIN, EPOLLRDHUP} \<and> l \<in> open_fds n \<and>
     finite (dom (interest n)) \<and> m_user_count n = int (card (dom (interest n) - {l})))"

definition pool_ok :: "int \<Rightarrow> int threadpool \<Rightarrow> bool" where
  "pool_ok l p = (pool_count l p = 0 \<and> None \<notin> set (m_workqueue p) \<and> \<not> m_stop p \<and> pushing p = 0 \<and>
     reachable tp_start tp_step p)"

definition server_inv :: "('db, 'rd, 'ob) server \<Rightarrow> bool" where
  "server_inv s = ((\<forall>fd. fd \<noteq> listenfd s \<longrightarrow> conn_inv fd s) \<and> registry (listenfd s) (netw s) \<and>
     pool_ok (listenfd s) (workers s))"

subsection \<open>The registry\<close>

lemma interest_modfd: "interest (modfd g ev n) fd =
    (if fd = g \<and> interest n g \<noteq> None then Some {ev, EPOLLONESHOT, EPOLLRDHUP} else interest n fd)"
  by (auto simp: modfd_def split: option.splits)

lemma modfd_frame [simp]: "open_fds (modfd g ev n) = open_fds n" "m_user_count (modfd g ev n) = m_user_count n"
  by (simp_all add: modfd_def split: option.splits)

lemma dom_modfd [simp]: "dom (interest (modfd g ev n)) = dom (interest n)"
  by (auto simp: interest_modfd dom_def)

lemma registry_modfd: "registry l n \<Longrightarrow> g \<noteq> l \<Longrightarrow> registry l (modfd g ev n)"
  by (simp add: registry_def interest_modfd)

lemma interest_deliver: "interest (deliver g n) fd =
    (if fd = g then map_option (\<lambda>fl. if EPOLLONESHOT \<in> fl then {} else fl) (interest n g) else interest n fd)"
  by (auto simp: deliver_def split: option.splits)

lemma deliver_frame [simp]: "open_fds (deliver g n) = open_fds n" "m_user_count (deliver g n) = m_user_count n"
  by (simp_all add: deliver_def split: option.splits)

lemma fold_deliver_frame [simp]:
  "open_fds (fold deliver gs n) = open_fds n" "m_user_count (fold deliver gs n) = m_user_count n"
  by (induction gs arbitrary: n) simp_all

lemma interest_fold_deliver: "interest (fold deliver gs n) fd =
    (if fd \<in> set gs then map_option (\<lambda>fl. if EPOLLONESHOT \<in> fl then {} else fl) (interest n fd) else interest n fd)"
  by (induction gs arbitrary: n) (auto simp: interest_deliver option.map_comp comp_def intro!: option.map_cong)

lemma dom_fold_deliver [simp]: "dom (interest (fold deliver gs n)) = dom (interest n)"
  by (auto simp: interest_fold_deliver dom_def)

lemma registry_deliver: "registry l n \<Longrightarrow> registry l (fold deliver gs n)"
  by (simp add: registry_def interest_fold_deliver)

lemma registry_close:
  assumes "registry l n" "g \<noteq> l" "interest n g \<noteq> None" "m_sockfd c = g" "0 \<le> g"
  shows "registry l (snd (close_conn c n))"
proof -
  have d: "dom ((interest n)(g := None)) - {l} = (dom (interest n) - {l}) - {g}" by auto
  have "g \<in> dom (interest n) - {l}" "finite (dom (interest n) - {l})"
    using assms by (auto simp: registry_def)
  then have "int (card (dom (interest n) - {l} - {g})) = int (card (dom (interest n) - {l})) - 1"
    using card_gt_0_iff [of "dom (interest n) - {l}"] by (auto simp: card_Diff_singleton of_nat_diff)
  moreover have "finite (dom ((interest n)(g := None)))" using assms(1) by (simp add: registry_def)
  ultimately show ?thesis
    using assms d by (simp add: registry_def close_conn_def removefd_def Let_def del: dom_fun_upd)
qed

lemma interest_addfd: "interest n g = None \<Longrightarrow> interest (addfd g True n) fd =
    (if fd = g then Some {EPOLLIN, EPOLLRDHUP, EPOLLONESHOT} else interest n fd)"
  by (auto simp: addfd_def setnonblock_def)

lemma addfd_frame [simp]: "open_fds (addfd g b n) = open_fds n" "m_user_count (addfd g b n) = m_user_count n"
  by (simp_all add: addfd_def setnonblock_def split: option.splits)

lemma registry_open:
  assumes "registry l n" "interest n g = None"
  shows "registry l (addfd g True (n\<lparr>open_fds := insert g (open_fds n), m_user_count := m_user_count n + 1\<rparr>))"
proof -
  have ne: "g \<noteq> l" using assms by (auto simp: registry_def)
  let ?n = "n\<lparr>open_fds := insert g (open_fds n), m_user_count := m_user_count n + 1\<rparr>"
  have i: "interest (addfd g True ?n) fd = (if fd = g then Some {EPOLLIN, EPOLLRDHUP, EPOLLONESHOT} else interest n fd)" for fd
    using interest_addfd [of ?n g fd] assms(2) by simp
  then have d: "dom (interest (addfd g True ?n)) = insert g (dom (interest n))" by (auto simp: dom_def)
  have "insert g (dom (interest n)) - {l} = insert g (dom (interest n) - {l})" using ne by auto
  with assms ne i d show ?thesis
    by (auto simp: registry_def card_insert_if)
qed

subsection \<open>The work queue and the workers\<close>

lemma count_list_append [simp]: "count_list (xs @ ys) x = count_list xs x + count_list ys x"
  by (induction xs) auto

text \<open>A worker step moves a request from the queue to the worker, or ends it.\<close>

lemma pool_count_run:
  assumes "i < length (threads p)" "run_step i (threads p ! i) p = Some q"
  shows "pool_count fd q + (if threads p ! i = At_run (Some fd) then 1 else 0) = pool_count fd p"
  using assms how_many_update [of i "threads p" "\<lambda>r. r = At_run (Some fd)"]
  by (cases "(i, threads p ! i, p)" rule: run_step.cases)
     (auto simp: pool_count_def split: if_splits list.splits)

lemma run_step_frame:
  assumes "run_step i pc p = Some q"
  shows "m_max_requests q = m_max_requests p" "m_stop q = m_stop p" "pushing q = pushing p"
    "set (m_workqueue q) \<subseteq> set (m_workqueue p)"
  using assms by (cases "(i, pc, p)" rule: run_step.cases; auto split: if_splits list.splits)+

lemma pool_count_zero: "pool_count fd q \<le> pool_count fd p \<Longrightarrow> pool_count fd p = 0 \<Longrightarrow> pool_count fd q = 0"
  by simp

lemma pool_ok_run:
  assumes "pool_ok l p" "i < length (threads p)" "run_step i (threads p ! i) p = Some q"
  shows "pool_ok l q"
proof -
  note f = run_step_frame [OF assms(3)]
  have "reachable tp_start tp_step q"
    using assms(1) reach_step [of tp_start tp_step p q] Thread_Pool.step_run [OF assms(2,3)]
    by (simp add: pool_ok_def)
  with assms(1) f pool_count_run [OF assms(2,3), of l] show ?thesis
    by (auto simp: pool_ok_def)
qed

lemma append_run:
  "append r p = (if length (m_workqueue p) \<ge> m_max_requests p then (False, p)
     else (True, p\<lparr>m_workqueue := m_workqueue p @ [r], m_queuestat := m_queuestat p + 1,
       appended := appended p @ [r]\<rparr>))"
  by (simp add: append_def append_locked_def append_release_def)

lemma pool_count_append:
  "append (Some g) p = (True, q) \<Longrightarrow> pool_count fd q = pool_count fd p + (if fd = g then 1 else 0)"
  by (auto simp: append_run pool_count_def split: if_splits)

lemma append_frame: "append r p = (b, q) \<Longrightarrow> m_max_requests q = m_max_requests p"
  by (auto simp: append_run split: if_splits)

lemma append_rejects: "append r p = (False, q) \<Longrightarrow> q = p \<and> m_max_requests p \<le> length (m_workqueue p)"
  by (auto simp: append_run split: if_splits)

lemma append_reachable:
  assumes "append r p = (True, q)" "reachable tp_start tp_step p"
  shows "reachable tp_start tp_step q"
proof -
  obtain p1 where a: "append_locked r p = (True, p1)" "q = append_release p1"
    using assms(1) by (auto simp: append_def split: prod.splits bool.splits)
  have 1: "reachable tp_start tp_step p1" by (rule reach_step [OF assms(2) step_append [OF a(1)]])
  have "0 < pushing p1" using a(1) by (auto simp: append_locked_def split: if_splits)
  then have "tp_step p1 (append_release p1)" by (rule Thread_Pool.step_release)
  then show ?thesis unfolding a(2) by (rule reach_step [OF 1])
qed

lemma pool_ok_append:
  assumes "pool_ok l p" "append (Some g) p = (True, q)" "g \<noteq> l"
  shows "pool_ok l q"
proof -
  have "reachable tp_start tp_step q"
    using assms by (intro append_reachable [OF assms(2)]) (simp add: pool_ok_def)
  then show ?thesis
    using assms pool_count_append [OF assms(2), of l] by (auto simp: pool_ok_def append_run split: if_splits)
qed

lemma count_list_le_1_distinct: "(\<And>x. count_list xs x \<le> 1) \<Longrightarrow> distinct xs"
proof (induction xs)
  case Nil
  then show ?case by simp
next
  case (Cons a xs)
  have "count_list xs x \<le> 1" for x using Cons.prems [of x] by (auto split: if_splits)
  moreover have "count_list xs a = 0" using Cons.prems [of a] by simp
  ultimately show ?case using Cons.IH by (simp add: count_list_0_iff)
qed

text \<open>A queue of distinct descriptors below the limit, one of them missing, is shorter than the limit.\<close>

lemma queue_has_room:
  assumes "\<And>fd. count_list q (Some fd) \<le> 1" "None \<notin> set q" "\<And>fd. Some fd \<in> set q \<Longrightarrow> 0 \<le> fd \<and> fd < lim"
    "Some g \<notin> set q" "0 \<le> g" "g < lim"
  shows "int (length q) < lim"
proof -
  have "distinct q"
  proof (rule count_list_le_1_distinct)
    fix x show "count_list q x \<le> 1"
      using assms(1,2) by (cases x) (auto simp: count_list_0_iff)
  qed
  have "set q \<subseteq> Some ` ({0..<lim} - {g})"
  proof
    fix x assume x: "x \<in> set q"
    with assms(2) obtain fd where "x = Some fd" by (cases x) auto
    with x assms(3) [of fd] assms(4) show "x \<in> Some ` ({0..<lim} - {g})" by auto
  qed
  then have "card (set q) \<le> card (Some ` ({0..<lim} - {g}))"
    by (intro card_mono) auto
  also have "\<dots> = card ({0..<lim} - {g})" by (rule card_image) simp
  also have "\<dots> = nat lim - 1" using assms(5,6) by (simp add: card_Diff_singleton)
  finally show ?thesis
    using \<open>distinct q\<close> assms(5,6) by (simp add: distinct_card)
qed

lemma pool_count_mem: "Some fd \<in> set (m_workqueue p) \<Longrightarrow> 0 < pool_count fd p"
  by (simp add: pool_count_def count_list_0_iff flip: neq0_conv)

subsection \<open>One connection in the hands of one thread\<close>

text \<open>
  The state between taking a reference to \<open>g\<close> out of the batch or the pool and putting it somewhere
  else: every other connection satisfies its invariant and nothing but the registry mentions \<open>g\<close>.
\<close>

definition in_hand :: "int \<Rightarrow> ('db, 'rd, 'ob) server \<Rightarrow> bool" where
  "in_hand g s = ((\<forall>fd. fd \<noteq> listenfd s \<longrightarrow> fd \<noteq> g \<longrightarrow> conn_inv fd s) \<and> registry (listenfd s) (netw s) \<and>
     pool_ok (listenfd s) (workers s) \<and> g \<noteq> listenfd s \<and> interest (netw s) g \<noteq> None \<and>
     m_sockfd (users s g) = g \<and> 0 \<le> g \<and> g < max_fd s \<and> g \<in> open_fds (netw s) \<and>
     events_of g (batch s) = [] \<and> pool_count g (workers s) = 0)"

lemma conn_invI:
  assumes "conn_inv fd s" "interest (netw t) fd = interest (netw s) fd" "users t fd = users s fd"
    "fd \<in> open_fds (netw t) \<longleftrightarrow> fd \<in> open_fds (netw s)" "events_of fd (batch t) = events_of fd (batch s)"
    "pool_count fd (workers t) = pool_count fd (workers s)"
    "m_max_requests (workers t) = m_max_requests (workers s)" "max_fd t = max_fd s"
  shows "conn_inv fd t"
  using assms by (simp add: conn_inv_def)

lemma events_of_Cons [simp]:
  "events_of fd [] = []"
  "events_of fd (e # evs) = (if fst e = fd then e # events_of fd evs else events_of fd evs)"
  by (simp_all add: events_of_def)

lemma in_hand_event:
  assumes "server_inv s" "batch s = (g, fl) # rest" "g \<noteq> listenfd s"
  shows "in_hand g (s\<lparr>batch := rest\<rparr>) \<and> interest (netw s) g = Some {} \<and>
    fl - {EPOLLONESHOT} \<noteq> {} \<and> (EPOLLIN \<in> fl \<longrightarrow> fresh_response (users s g))"
proof -
  have g: "conn_inv g s" using assms by (simp add: server_inv_def)
  then obtain F where F: "interest (netw s) g = Some F"
    using assms(2) by (cases "interest (netw s) g") (auto simp: conn_inv_def conn_ok_def)
  with g assms(2) have c: "F = {}" "events_of g rest = []" "pool_count g (workers s) = 0"
    "m_sockfd (users s g) = g" "0 \<le> g" "g < max_fd s" "g \<in> open_fds (netw s)"
    "fl - {EPOLLONESHOT} \<noteq> {}" "EPOLLIN \<in> fl \<longrightarrow> fresh_response (users s g)"
    by (auto simp: conn_inv_def conn_ok_def split: if_splits)
  have o: "conn_inv fd (s\<lparr>batch := rest\<rparr>)" if "fd \<noteq> listenfd s" "fd \<noteq> g" for fd
    by (rule conn_invI [of fd s]) (use assms that in \<open>auto simp: server_inv_def\<close>)
  have "registry (listenfd s) (netw s)" "pool_ok (listenfd s) (workers s)"
    using assms(1) by (simp_all add: server_inv_def)
  with assms(3) c F o show ?thesis unfolding in_hand_def by simp
qed

lemma in_hand_worker:
  assumes "server_inv s" "i < length (threads (workers s))" "threads (workers s) ! i = At_run (Some g)"
    "run_step i (At_run (Some g)) (workers s) = Some p"
  shows "in_hand g (s\<lparr>workers := p\<rparr>) \<and> fresh_response (users s g)"
proof -
  note r = assms(4) [folded assms(3)]
  have k: "pool_count fd p + (if fd = g then 1 else 0) = pool_count fd (workers s)" for fd
    using pool_count_run [OF assms(2) r, of fd] assms(3) by (auto split: if_splits)
  have gl: "g \<noteq> listenfd s" using k [of g] assms(1) by (auto simp: server_inv_def pool_ok_def)
  have g: "conn_inv g s" using assms(1) gl by (simp add: server_inv_def)
  have "0 < pool_count g (workers s)" using k [of g] by simp
  with g obtain F where F: "interest (netw s) g = Some F"
    by (cases "interest (netw s) g") (auto simp: conn_inv_def conn_ok_def)
  with g k [of g] have "length (events_of g (batch s)) + pool_count g (workers s) \<le> 1" and c:
    "m_sockfd (users s g) = g" "0 \<le> g" "g < max_fd s" "g \<in> open_fds (netw s)" "fresh_response (users s g)"
    by (simp_all add: conn_inv_def conn_ok_def)
  with k [of g] have e: "events_of g (batch s) = []" "pool_count g p = 0"
    by (cases "events_of g (batch s)"; simp)+
  have o: "conn_inv fd (s\<lparr>workers := p\<rparr>)" if "fd \<noteq> listenfd s" "fd \<noteq> g" for fd
    by (rule conn_invI [of fd s])
       (use assms(1) that k [of fd] run_step_frame [OF r] in \<open>auto simp: server_inv_def\<close>)
  have "registry (listenfd s) (netw s)" "pool_ok (listenfd s) p"
    using assms(1) pool_ok_run [OF _ assms(2) r] by (simp_all add: server_inv_def)
  with gl c e F o show ?thesis unfolding in_hand_def by simp
qed

text \<open>A held connection may be changed, as long as its descriptor stays.\<close>

lemma in_hand_users: "in_hand g s \<Longrightarrow> m_sockfd c = g \<Longrightarrow> in_hand g (s\<lparr>users := (users s)(g := c)\<rparr>)"
  unfolding in_hand_def by (auto intro: conn_invI)

lemma in_hand_modfd: "in_hand g s \<Longrightarrow> in_hand g (s\<lparr>netw := modfd g ev (netw s)\<rparr>)"
  unfolding in_hand_def by (auto simp: registry_modfd interest_modfd intro: conn_invI)

lemma in_hand_world: "in_hand g s \<Longrightarrow> in_hand g (s\<lparr>wrld := w\<rparr>)"
  unfolding in_hand_def by (auto intro: conn_invI)

text \<open>The three ways to let go of it: close it, enable it again, or queue it.\<close>

lemma close_user_inv:
  assumes "in_hand g s"
  shows "server_inv (close_user g s)"
proof -
  have c: "m_sockfd (users s g) = g" "0 \<le> g" "g \<noteq> listenfd s" using assms by (auto simp: in_hand_def)
  have r: "registry (listenfd s) (snd (close_conn (users s g) (netw s)))"
    by (rule registry_close) (use assms in \<open>auto simp: in_hand_def\<close>)
  have t: "workers (close_user g s) = workers s" "netw (close_user g s) = snd (close_conn (users s g) (netw s))"
    "fd \<noteq> g \<Longrightarrow> users (close_user g s) fd = users s fd" "batch (close_user g s) = batch s"
    "max_fd (close_user g s) = max_fd s" "listenfd (close_user g s) = listenfd s" for fd
    by (simp_all add: close_user_def split_def Let_def)
  have n: "interest (snd (close_conn (users s g) (netw s))) fd = (if fd = g then None else interest (netw s) fd)"
    "open_fds (snd (close_conn (users s g) (netw s))) = open_fds (netw s) - {g}" for fd
    using c by (simp_all add: close_conn_def removefd_def Let_def)
  have "conn_inv fd (close_user g s)" if "fd \<noteq> listenfd s" for fd
  proof (cases "fd = g")
    case True
    with assms show ?thesis by (simp add: t conn_inv_def conn_ok_def n in_hand_def)
  next
    case False
    show ?thesis
      by (rule conn_invI [of fd s]) (use False assms that in \<open>simp_all add: t n in_hand_def\<close>)
  qed
  with r assms show ?thesis
    by (simp add: server_inv_def t in_hand_def)
qed

lemma rearm_inv:
  assumes "in_hand g s" "ev = EPOLLIN \<Longrightarrow> fresh_response (users s g)"
  shows "server_inv (s\<lparr>netw := modfd g ev (netw s)\<rparr>)"
proof -
  let ?t = "s\<lparr>netw := modfd g ev (netw s)\<rparr>"
  have "conn_inv fd ?t" if "fd \<noteq> listenfd s" for fd
  proof (cases "fd = g")
    case True
    with assms show ?thesis by (auto simp: conn_inv_def conn_ok_def interest_modfd in_hand_def)
  next
    case False
    with that in_hand_modfd [OF assms(1), of ev] show ?thesis by (simp add: in_hand_def)
  qed
  with in_hand_modfd [OF assms(1), of ev] show ?thesis
    by (simp add: server_inv_def in_hand_def)
qed

text \<open>With a queue that has room for every descriptor \<^verbatim>\<open>append\<close> does not reject.\<close>

lemma in_hand_room:
  assumes "in_hand g s" "max_fd s \<le> int (m_max_requests (workers s))"
  shows "length (m_workqueue (workers s)) < m_max_requests (workers s)"
proof -
  let ?q = "m_workqueue (workers s)"
  have o: "conn_inv fd s" if "0 < pool_count fd (workers s)" for fd
    using assms(1) that by (cases "fd = g"; cases "fd = listenfd s") (auto simp: in_hand_def pool_ok_def)
  have lim: "0 \<le> fd \<and> fd < max_fd s \<and> pool_count fd (workers s) \<le> 1" if "0 < pool_count fd (workers s)" for fd
    using o [OF that] that by (auto simp: conn_inv_def conn_ok_def split: option.splits if_splits)
  have "int (length ?q) < max_fd s"
  proof (rule queue_has_room)
    show "count_list ?q (Some fd) \<le> 1" for fd
      using lim [of fd] by (cases "0 < pool_count fd (workers s)") (auto simp: pool_count_def)
    show "0 \<le> fd \<and> fd < max_fd s" if "Some fd \<in> set ?q" for fd
      using lim [OF pool_count_mem [OF that]] by simp
    show "Some g \<notin> set ?q" using assms(1) pool_count_mem [of g "workers s"] by (auto simp: in_hand_def)
  qed (use assms(1) in \<open>auto simp: in_hand_def pool_ok_def\<close>)
  with assms(2) show ?thesis by linarith
qed

lemma submit_inv:
  assumes "in_hand g s" "interest (netw s) g = Some {}" "fresh_response (users s g)"
  shows "server_inv (submit g s)"
proof -
  obtain b p where a: "append (Some g) (workers s) = (b, p)" by (cases "append (Some g) (workers s)")
  have k: "pool_count fd p = pool_count fd (workers s) + (if b \<and> fd = g then 1 else 0)" for fd
    using a pool_count_append [of g "workers s" p fd] append_rejects [of "Some g" "workers s" p] by (cases b) auto
  have f: "m_max_requests p = m_max_requests (workers s)" by (rule append_frame [OF a])
  have b: "b" if "max_fd s \<le> int (m_max_requests (workers s))"
    using in_hand_room [OF assms(1) that] a append_rejects [of "Some g" "workers s" p] by (cases b) auto
  have t: "workers (submit g s) = p" "netw (submit g s) = netw s" "users (submit g s) = users s"
    "batch (submit g s) = batch s" "max_fd (submit g s) = max_fd s" "listenfd (submit g s) = listenfd s"
    using a by (cases b; simp add: submit_def server_log_def)+
  have "conn_inv fd (submit g s)" if "fd \<noteq> listenfd s" for fd
  proof (cases "fd = g")
    case True
    with assms b k [of g] f show ?thesis by (auto simp: t conn_inv_def conn_ok_def in_hand_def)
  next
    case False
    show ?thesis
      by (rule conn_invI [of fd s]) (use False assms(1) that k [of fd] f in \<open>simp_all add: t in_hand_def\<close>)
  qed
  moreover have "pool_ok (listenfd s) p"
    using a assms(1) pool_ok_append [of "listenfd s" "workers s" g p] append_rejects [of "Some g" "workers s" p]
    by (cases b) (auto simp: in_hand_def)
  ultimately show ?thesis
    using assms(1) by (simp add: server_inv_def t in_hand_def)
qed

subsection \<open>Every step keeps the invariant\<close>

lemma read_frame:
  "m_sockfd (snd (read segs e c)) = m_sockfd c \<and> m_write_index (snd (read segs e c)) = m_write_index c"
proof -
  have "m_sockfd (snd (read_loop segs e c)) = m_sockfd c \<and> m_write_index (snd (read_loop segs e c)) = m_write_index c"
  proof (induction segs e c rule: read_loop.induct)
    case (1 segs e c)
    show ?case
      using 1 by (simp add: read_loop.simps [of segs e c] Let_def split: list.splits recv_end.splits)
  qed
  then show ?thesis by (simp add: read_def)
qed

text \<open>What \<^verbatim>\<open>write()\<close> does to the socket and the response buffer.\<close>

definition write_frame :: "http_conn \<Rightarrow> net \<Rightarrow> bool \<times> string \<times> http_conn \<times> net \<Rightarrow> bool" where
  "write_frame c n r = (case r of (ok, sent, c', n') \<Rightarrow> m_sockfd c' = m_sockfd c \<and>
     (if ok then n' = modfd (m_sockfd c) EPOLLOUT n \<or> (n' = modfd (m_sockfd c) EPOLLIN n \<and> fresh_response c')
      else n' = n \<or> n' = modfd (m_sockfd c) EPOLLIN n))"

lemma init_frame [simp]: "m_sockfd (init c) = m_sockfd c" "fresh_response (init c)"
  by (simp_all add: init_def fresh_response_def)

lemma write_loop_frame: "write_frame c n (write_loop ks e c n)"
proof (induction ks arbitrary: c n)
  case Nil
  then show ?case by (cases e) (simp_all add: write_frame_def)
next
  case (Cons k ks)
  define temp where "temp = min k (length (to_send c))"
  obtain cont c1 where a: "advance temp c = (cont, c1)" by (cases "advance temp c")
  have f: "m_sockfd c1 = m_sockfd c" using advance_frame [of temp c] a by simp
  from Cons.IH [of c1 n] f a show ?case
    by (auto simp: write_frame_def Let_def temp_def [symmetric] split: prod.splits)
qed

lemma conn_write_frame: "write_frame c n (conn_write ks e c n)"
  using write_loop_frame [of c n ks e] by (simp add: conn_write_def) (simp add: write_frame_def)

lemma on_readable_inv:
  assumes "in_hand g s" "interest (netw s) g = Some {}" "fresh_response (users s g)"
  shows "server_inv (on_readable k g s)"
proof -
  obtain ok c where r: "read (k_segments k) (k_recv_end k) (users s g) = (ok, c)"
    by (cases "read (k_segments k) (k_recv_end k) (users s g)")
  let ?s = "s\<lparr>users := (users s)(g := c)\<rparr>"
  have c: "m_sockfd c = g" "fresh_response c"
    using read_frame [of "k_segments k" "k_recv_end k" "users s g"] r assms by (auto simp: in_hand_def fresh_response_def)
  have h: "in_hand g ?s" by (rule in_hand_users [OF assms(1) c(1)])
  have "server_inv (submit g ?s)" by (rule submit_inv [OF h]) (use assms c in simp_all)
  with close_user_inv [OF h] r show ?thesis by (simp add: on_readable_def Let_def)
qed

lemma on_writable_inv:
  assumes "in_hand g s"
  shows "server_inv (on_writable k g s)"
proof -
  obtain ok sent c n where r: "conn_write (k_accepted k) (k_send_end k) (users s g) (netw s) = (ok, sent, c, n)"
    by (cases "conn_write (k_accepted k) (k_send_end k) (users s g) (netw s)")
  let ?s = "s\<lparr>users := (users s)(g := c)\<rparr>"
  have m: "m_sockfd (users s g) = g" using assms by (simp add: in_hand_def)
  have f: "m_sockfd c = g" "ok \<Longrightarrow> n = modfd g EPOLLOUT (netw s) \<or> (n = modfd g EPOLLIN (netw s) \<and> fresh_response c)"
    "\<not> ok \<Longrightarrow> n = netw s \<or> n = modfd g EPOLLIN (netw s)"
    using conn_write_frame [of "users s g" "netw s" "k_accepted k" "k_send_end k"] r m
    by (auto simp: write_frame_def)
  have h: "in_hand g ?s" by (rule in_hand_users [OF assms f(1)])
  have "on_writable k g s = (if ok then ?s\<lparr>netw := n\<rparr> else close_user g (?s\<lparr>netw := n\<rparr>))"
    using r by (simp add: on_writable_def Let_def)
  moreover have "server_inv (?s\<lparr>netw := n\<rparr>)" if ok
    using f(2) [OF that] rearm_inv [OF h, of EPOLLOUT] rearm_inv [OF h, of EPOLLIN] by auto
  moreover have "server_inv (close_user g (?s\<lparr>netw := n\<rparr>))" if "\<not> ok"
  proof -
    have "in_hand g (?s\<lparr>netw := n\<rparr>)" using f(3) [OF that] h in_hand_modfd [OF h, of EPOLLIN] by auto
    then show ?thesis by (rule close_user_inv)
  qed
  ultimately show ?thesis by simp
qed

lemma on_accept_inv:
  assumes "server_inv s" "accept_ok r (netw s)"
  shows "server_inv (on_accept r s)"
proof (cases r)
  case (Accept_failed e)
  then show ?thesis
    using assms(1) by (auto simp: on_accept_def server_log_def server_inv_def intro: conn_invI)
next
  case (Accepted g)
  let ?n = "(netw s)\<lparr>open_fds := insert g (open_fds (netw s))\<rparr>"
  have g: "0 \<le> g" "g \<notin> open_fds (netw s)" using assms(2) Accepted by auto
  have gl: "g \<noteq> listenfd s" using assms(1) g by (auto simp: server_inv_def registry_def)
  have cg: "conn_inv g s" using assms(1) gl by (simp add: server_inv_def)
  with g have i: "interest (netw s) g = None" "events_of g (batch s) = []" "pool_count g (workers s) = 0"
    by (auto simp: conn_inv_def conn_ok_def split: option.splits)
  show ?thesis
  proof (cases "m_user_count ?n \<ge> max_fd s \<or> g \<ge> max_fd s")
    case True
    then have e: "on_accept r s = s\<lparr>netw := close_fd g ?n\<rparr>" using Accepted by (simp add: on_accept_def Let_def)
    have n: "close_fd g ?n = netw s" using g by (simp add: close_fd_def)
    show ?thesis using assms(1) by (simp add: e n)
  next
    case False
    define n1 where "n1 = addfd g True (?n\<lparr>m_user_count := m_user_count ?n + 1\<rparr>)"
    let ?t = "s\<lparr>users := (users s)(g := init ((users s g)\<lparr>m_sockfd := g\<rparr>)), netw := n1\<rparr>"
    have e: "on_accept r s = ?t"
      using False Accepted by (simp add: on_accept_def Let_def init_conn_def n1_def)
    have n: "interest n1 fd = (if fd = g then Some {EPOLLIN, EPOLLRDHUP, EPOLLONESHOT} else interest (netw s) fd)"
      "open_fds n1 = insert g (open_fds (netw s))" for fd
      using interest_addfd [of "?n\<lparr>m_user_count := m_user_count ?n + 1\<rparr>" g fd] i by (simp_all add: n1_def)
    have reg: "registry (listenfd s) n1"
      using registry_open [of "listenfd s" "netw s" g] assms(1) i by (simp add: server_inv_def n1_def)
    have "conn_inv fd ?t" if "fd \<noteq> listenfd s" for fd
    proof (cases "fd = g")
      case True
      with False g i show ?thesis by (simp add: conn_inv_def conn_ok_def n)
    next
      case F: False
      show ?thesis by (rule conn_invI [of fd s]) (use F assms(1) that in \<open>simp_all add: n server_inv_def\<close>)
    qed
    with reg assms(1) show ?thesis by (simp add: e server_inv_def)
  qed
qed

lemma handle_event_inv:
  assumes "server_inv s" "batch s = ev # rest" "accept_ok (k_accept k) (netw s)"
  shows "server_inv (handle_event k ev (s\<lparr>batch := rest\<rparr>))"
proof (cases "fst ev = listenfd s")
  case True
  have "conn_inv fd (s\<lparr>batch := rest\<rparr>)" if "fd \<noteq> listenfd s" for fd
    by (rule conn_invI [of fd s]) (use assms True that in \<open>auto simp: server_inv_def\<close>)
  then have "server_inv (s\<lparr>batch := rest\<rparr>)" using assms(1) by (simp add: server_inv_def)
  with on_accept_inv [of "s\<lparr>batch := rest\<rparr>"] assms(3) True show ?thesis by (simp add: handle_event_def)
next
  case False
  obtain g fl where ev: "ev = (g, fl)" by (cases ev)
  have h: "in_hand g (s\<lparr>batch := rest\<rparr>)" "interest (netw s) g = Some {}" "fl - {EPOLLONESHOT} \<noteq> {}"
    "EPOLLIN \<in> fl \<longrightarrow> fresh_response (users s g)"
    using in_hand_event [OF assms(1) assms(2) [unfolded ev]] False ev by auto
  obtain x where "x \<in> fl" "x \<noteq> EPOLLONESHOT" using h(3) by auto
  then have "fl \<inter> {EPOLLRDHUP, EPOLLHUP, EPOLLERR} \<noteq> {} \<or> EPOLLIN \<in> fl \<or> EPOLLOUT \<in> fl"
    by (cases x) auto
  then show ?thesis
    using False ev close_user_inv [OF h(1)] on_writable_inv [OF h(1)] on_readable_inv [OF h(1)] h(2,4)
    by (auto simp: handle_event_def)
qed

lemma events_of_distinct:
  "distinct (map fst evs) \<Longrightarrow> (\<exists>fl. (fd, fl) \<in> set evs \<and> events_of fd evs = [(fd, fl)]) \<or> (fd \<notin> fst ` set evs \<and> events_of fd evs = [])"
proof (induction evs)
  case Nil
  then show ?case by simp
next
  case (Cons e evs)
  then show ?case by (cases e) force
qed

lemma wait_returns_inv:
  assumes "server_inv s" "batch s = []" "batch_ok (netw s) evs"
  shows "server_inv (wait_returns evs s)"
proof -
  let ?n = "fold deliver (map fst evs) (netw s)"
  have c: "conn_inv fd (wait_returns evs s)" if "fd \<noteq> listenfd s" for fd
  proof -
    have s: "conn_inv fd s" using assms(1) that by (simp add: server_inv_def)
    have d: "distinct (map fst evs)" using assms(3) by (simp add: batch_ok_def)
    consider fl where "(fd, fl) \<in> set evs" "events_of fd evs = [(fd, fl)]" |
        "fd \<notin> fst ` set evs" "events_of fd evs = []"
      using events_of_distinct [OF d, of fd] by blast
    then show ?thesis
    proof cases
      case 1
      then have fl: "fl \<noteq> {}" "fl \<subseteq> reportable (netw s) fd"
        using assms(3) by (auto simp: batch_ok_def list_all_iff)
      then obtain F where F: "interest (netw s) fd = Some F" "F \<noteq> {}"
        by (auto simp: reportable_def split: option.splits if_splits)
      have x: "fl - {EPOLLONESHOT} \<noteq> {}" "EPOLLIN \<in> fl \<longrightarrow> EPOLLIN \<in> F"
        using fl F by (auto simp: reportable_def split: if_splits)
      have "fd \<in> fst ` set evs" using 1(1) by force
      then have i: "interest ?n fd = Some {}"
        using s F by (simp add: interest_fold_deliver conn_inv_def conn_ok_def)
      show ?thesis
        using s F x 1(2) assms(2) i by (simp add: conn_inv_def conn_ok_def wait_returns_def)
    next
      case 2
      show ?thesis
        by (rule conn_invI [OF s]) (use 2 assms(2) in \<open>simp_all add: wait_returns_def interest_fold_deliver\<close>)
    qed
  qed
  have "registry (listenfd s) ?n" by (rule registry_deliver) (use assms(1) in \<open>simp add: server_inv_def\<close>)
  with c assms(1) show ?thesis by (simp add: server_inv_def wait_returns_def)
qed

lemma worker_step_inv:
  assumes "server_inv s" "i < length (threads (workers s))" "worker_step E i s = Some t"
  shows "server_inv t"
proof -
  obtain p where p: "run_step i (threads (workers s) ! i) (workers s) = Some p"
    "t = (case threads (workers s) ! i of At_run (Some fd) \<Rightarrow> run_process E fd s | _ \<Rightarrow> s)\<lparr>workers := p\<rparr>"
    using assms(3) by (auto simp: worker_step_def)
  show ?thesis
  proof (cases "\<exists>g. threads (workers s) ! i = At_run (Some g)")
    case True
    then obtain g where g: "threads (workers s) ! i = At_run (Some g)" by blast
    note h = in_hand_worker [OF assms(1,2) g p(1) [unfolded g]]
    obtain c n w where r: "run_state (process E (users s g) (netw s)) (wrld s) = ((c, n), w)"
      by (metis prod.collapse)
    have m: "m_sockfd (users s g) = g" using h by (simp add: in_hand_def)
    obtain ev where ev: "n = modfd g ev (netw s)" "m_sockfd c = g" "ev = EPOLLIN \<longrightarrow> fresh_response c"
      using process_rearm_fresh [of "users s g" E "netw s" "wrld s"] h r m by auto
    let ?s = "s\<lparr>workers := p, users := (users s)(g := c), wrld := w\<rparr>"
    have "in_hand g ?s"
      using in_hand_world [OF in_hand_users [OF conjunct1 [OF h] ev(2)], of w] by simp
    then have "server_inv (?s\<lparr>netw := modfd g ev (netw ?s)\<rparr>)" by (rule rearm_inv) (use ev in simp)
    moreover have "t = ?s\<lparr>netw := modfd g ev (netw ?s)\<rparr>"
      using p(2) g r ev(1) by (simp add: run_process_def)
    ultimately show ?thesis by simp
  next
    case False
    then have t: "t = s\<lparr>workers := p\<rparr>"
      using p(2) by (auto split: thread_pc.splits option.splits)
    have k: "pool_count fd p = pool_count fd (workers s)" for fd
      using pool_count_run [OF assms(2) p(1), of fd] False by auto
    have "conn_inv fd t" if "fd \<noteq> listenfd s" for fd
      by (rule conn_invI [of fd s])
         (use assms(1) that k run_step_frame [OF p(1)] in \<open>simp_all add: t server_inv_def\<close>)
    then show ?thesis
      using assms(1) pool_ok_run [OF _ assms(2) p(1)] by (simp add: server_inv_def t)
  qed
qed

lemma submit_cap [simp]: "m_max_requests (workers (submit g s)) = m_max_requests (workers s)"
  by (auto simp: submit_def server_log_def append_run split: if_splits)

lemma close_user_workers [simp]: "workers (close_user g s) = workers s"
  by (simp add: close_user_def split_def Let_def)

lemma handle_event_cap: "m_max_requests (workers (handle_event k ev s)) = m_max_requests (workers s)"
  by (simp add: handle_event_def on_accept_def on_readable_def on_writable_def server_log_def split_def Let_def
      split: accept_result.splits)

lemma worker_step_cap: "worker_step E i s = Some t \<Longrightarrow> m_max_requests (workers t) = m_max_requests (workers s)"
  by (cases "run_step i (threads (workers s) ! i) (workers s)") (auto simp: worker_step_def dest: run_step_frame(1))

lemma boot_workers:
  assumes "run_state (boot E connect argc program sock) w = (Inr (fds, p), w')"
  shows "threadpool_new 10 10000 = Some p" "0 < fds"
  using assms
  by (auto simp: boot_def check_config_def start_workers_def Let_def split_def threadpool_new_def
      split: if_splits option.splits prod.splits)

lemma server_start_inv:
  assumes "server_start E s"
  shows "server_inv s \<and> m_max_requests (workers s) = 10000 \<and> length (threads (workers s)) = 10"
proof -
  obtain sock objects0 opened fds p w' where s: "s = serve sock objects0 opened fds p w'" "sock \<in> opened"
    and p: "threadpool_new 10 10000 = Some p"
    using assms boot_workers(1) unfolding server_start_def by blast
  have "tp_start p" using p unfolding tp_start_def by blast
  then have r: "reachable tp_start tp_step p" by (rule reach_start)
  have p': "p = \<lparr>m_workqueue = [], m_queuestat = 0, m_stop = False, m_max_requests = 10000,
      threads = replicate 10 At_check, pushing = 0, appended = [], popped = [], processed = []\<rparr>"
    using p by (simp add: threadpool_new_def)
  have k: "pool_count fd p = 0" for fd by (simp add: p' pool_count_def how_many_def)
  have "server_inv s"
    using s r k unfolding server_inv_def
    by (auto simp: serve_def conn_inv_def conn_ok_def registry_def pool_ok_def addfd_def setnonblock_def
        empty_net_def p')
  with s show ?thesis by (simp add: serve_def p')
qed

interpretation sv: invariant_system "server_start E" "server_step E"
  "\<lambda>s. server_inv s \<and> m_max_requests (workers s) = 10000"
  for E :: "('db, 'rd, 'ob) externals"
proof unfold_locales
  show "server_start E s \<Longrightarrow> server_inv s \<and> m_max_requests (workers s) = 10000" for s
    using server_start_inv [of E s] by simp
  fix s t :: "('db, 'rd, 'ob) server"
  assume inv: "server_inv s \<and> m_max_requests (workers s) = 10000" and step: "server_step E s t"
  from step have cap: "m_max_requests (workers t) = m_max_requests (workers s)"
    by (cases rule: server_step.cases) (auto simp: wait_returns_def handle_event_cap worker_step_cap)
  from step have "server_inv t"
    by (cases rule: server_step.cases) (use inv wait_returns_inv handle_event_inv worker_step_inv in blast)+
  with inv cap show "server_inv t \<and> m_max_requests (workers t) = 10000" by simp
qed

subsection \<open>The workers come to rest\<close>

text \<open>Every worker step lowers this rank, so between two actions of the main thread the workers stop.\<close>

fun busy_rank :: "'r thread_pc \<Rightarrow> nat" where
  "busy_rank At_check = 1"
| "busy_rank At_acquire = 0"
| "busy_rank At_recheck = 3"
| "busy_rank At_pop = 2"
| "busy_rank (At_run r) = 2"
| "busy_rank Exited = 0"

definition work_rank :: "'r threadpool \<Rightarrow> nat" where
  "work_rank p = 4 * m_queuestat p + length (m_workqueue p) + sum_list (map busy_rank (threads p))"

lemma sum_list_update_nat:
  "i < length ts \<Longrightarrow> sum_list (map f (ts[i := x])) + f (ts ! i) = sum_list (map (f :: _ \<Rightarrow> nat) ts) + f x"
proof (induction ts arbitrary: i)
  case Nil
  then show ?case by simp
next
  case (Cons y ts)
  then show ?case by (cases i) auto
qed

lemma run_step_busy:
  assumes "i < length (threads p)" "run_step i (threads p ! i) p = Some q"
  shows "work_rank q < work_rank p"
proof -
  obtain y where y: "threads q = (threads p)[i := y]"
    "4 * m_queuestat q + length (m_workqueue q) + busy_rank y <
     4 * m_queuestat p + length (m_workqueue p) + busy_rank (threads p ! i)"
    using assms by (cases "(i, threads p ! i, p)" rule: run_step.cases) (auto split: if_splits list.splits)
  then show ?thesis
    using sum_list_update_nat [OF assms(1), of busy_rank y] by (simp add: work_rank_def)
qed

text \<open>When no worker can move they all wait, and nothing is queued or being processed.\<close>

lemma rest_no_work:
  assumes "pool_ok l p" "\<And>i. i < length (threads p) \<Longrightarrow> run_step i (threads p ! i) p = None" "threads p \<noteq> []"
  shows "m_workqueue p = [] \<and> (\<forall>q \<in> set (threads p). q = At_acquire)"
proof -
  have inv: "tp_inv p" using assms(1) tp.reachable_inv [of p] by (simp add: pool_ok_def)
  have e: "Exited \<notin> set (threads p)" using inv assms(1) by (simp add: tp_inv_def pool_ok_def)
  have w: "threads p ! i = At_acquire \<and> m_queuestat p = 0" if "i < length (threads p)" for i
    using run_step_enabled [of "threads p ! i" p i] assms(2) [OF that] e nth_mem [OF that] by fastforce
  then have all: "\<forall>q \<in> set (threads p). q = At_acquire" by (auto simp: in_set_conv_nth)
  have "how_many claims_token (threads p) = 0"
    using all by (auto simp: how_many_def filter_empty_conv)
  moreover have "m_queuestat p = 0" using w [of 0] assms(3) by simp
  ultimately have "length (m_workqueue p) = 0"
    using inv assms(1) by (simp add: tp_inv_def pool_ok_def)
  with all show ?thesis by simp
qed

lemma rest_pool_count: "m_workqueue p = [] \<Longrightarrow> \<forall>q \<in> set (threads p). q = At_acquire \<Longrightarrow> pool_count fd p = 0"
  by (auto simp: pool_count_def how_many_def filter_empty_conv)

lemma worker_step_None:
  "worker_step E i s = None \<longleftrightarrow> run_step i (threads (workers s) ! i) (workers s) = None"
  by (simp add: worker_step_def)

lemma worker_step_workers: "worker_step E i s = Some t \<Longrightarrow> run_step i (threads (workers s) ! i) (workers s) = Some (workers t)"
  by (cases "run_step i (threads (workers s) ! i) (workers s)") (auto simp: worker_step_def)

lemma run_step_threads: "run_step i pc p = Some q \<Longrightarrow> length (threads q) = length (threads p)"
  by (cases "(i, pc, p)" rule: run_step.cases) (auto split: if_splits list.splits)

lemma handle_event_threads: "threads (workers (handle_event k ev s)) = threads (workers s)"
  by (auto simp: handle_event_def on_accept_def on_readable_def on_writable_def server_log_def submit_def
      append_run split_def Let_def split: accept_result.splits)

interpretation sn: invariant_system "server_start E" "server_step E" "\<lambda>s. length (threads (workers s)) = 10"
  for E :: "('db, 'rd, 'ob) externals"
proof unfold_locales
  show "server_start E s \<Longrightarrow> length (threads (workers s)) = 10" for s
    using server_start_inv [of E s] by simp
  fix s t :: "('db, 'rd, 'ob) server"
  assume "length (threads (workers s)) = 10" "server_step E s t"
  then show "length (threads (workers t)) = 10"
    by (elim server_stepE)
       (auto simp: wait_returns_def handle_event_threads dest!: worker_step_workers run_step_threads)
qed

subsection \<open>The start\<close>

lemma log_threads_same: "same_but_log w (snd (run_state (log_threads i n) w))"
proof (induction n arbitrary: i w)
  case 0
  then show ?case by simp
next
  case (Suc n)
  show ?case
    using same_but_log_trans [OF same_but_log_upd Suc.IH [of "w\<lparr>log_calls := _\<rparr>" "Suc i"]] by simp
qed

lemma check_config_cases:
  "run_state (check_config E) w = (r, w') \<Longrightarrow> same_but_log w w' \<and>
   (case r of None \<Rightarrow> True
    | Some fds \<Rightarrow> w' = w \<and> get_env_or_default (environ E) ''JWT_SECRET'' '''' \<noteq> '''' \<and>
        0 < get_env_int_or_default (environ E) ''JWT_EXPIRES_SECONDS'' 3600 \<and>
        fds = get_env_int_or_default (environ E) ''MAX_FD'' DEFAULT_MAX_FD \<and> 0 < fds)"
  by (auto simp: check_config_def Let_def split: if_splits)

lemma start_workers_run:
  "run_state (start_workers 10 10000) w = (r, w') \<Longrightarrow> r = threadpool_new 10 10000 \<and> same_but_log w w'"
  using log_threads_same [of w 0 10]
  by (auto simp: start_workers_def threadpool_new_def split: prod.splits)

lemma start_cache_ready:
  assumes "run_state (start_cache E) w = ((), w')" "redis_ready (redis w)"
  shows "redis_frame w w' \<and> redis_ready (redis w')"
proof (cases "env_enabled (environ E) ''REDIS_ENABLED''")
  case True
  obtain ok w1 where r: "run_state (redis_init E
          (get_env_or_default (environ E) ''REDIS_HOST'' ''localhost'')
          (get_env_int_or_default (environ E) ''REDIS_PORT'' 6379)
          (get_env_or_default (environ E) ''REDIS_PASSWORD'' '''')
          (env_enabled (environ E) ''REDIS_TLS'')) w = (ok, w1)"
    by (metis surj_pair)
  have "redis w' = redis w1" "redis_frame w1 w'"
    using assms(1) True r by (auto simp: start_cache_def redis_frame_def split: if_splits)
  with redis_init_result [OF r] redis_init_ready [OF r] show ?thesis by (auto intro: redis_frame_trans)
next
  case False
  with assms show ?thesis by (auto simp: start_cache_def redis_frame_def)
qed

text \<open>A process that reaches the event loop has a usable token configuration, ten free database
  connections, and a cache that is switched off or has connections.\<close>

lemma boot_ready:
  assumes "run_state (boot E connect argc program sock) w = (Inr (fds, p), w')"
    "pg_pool w = pool_new" "redis_ready (redis w)"
  shows "get_secret E \<noteq> '''' \<and> 0 < get_expires_seconds E \<and> 0 < fds \<and> db w' = db w \<and> objects w' = objects w \<and>
    length (conn_list (pg_pool w')) = 10 \<and> reserve (pg_pool w') = 10 \<and> get_free_conn (pg_pool w') = 10 \<and>
    redis_ready (redis w')"
proof -
  obtain r w1 where c: "run_state (check_config E) w = (r, w1)" by (cases "run_state (check_config E) w")
  have argc: "\<not> argc \<le> 1" using assms(1) by (auto simp: boot_def)
  have "r = Some fds" using assms(1) c argc
    by (cases r) (auto simp: boot_def split: option.splits prod.splits if_splits)
  note c = c [unfolded this]
  have c1: "w1 = w" "get_secret E \<noteq> ''''" "0 < get_expires_seconds E" "0 < fds"
    using check_config_cases [OF c] by (simp_all add: get_secret_def get_expires_seconds_def)
  obtain p2 :: "int threadpool option" and w2 where s: "run_state (start_workers 10 10000) w = (p2, w2)"
    by (metis surj_pair)
  have s1: "same_but_log w w2" "p2 = threadpool_new 10 10000" using start_workers_run [OF s] by simp_all
  then obtain p3 where p3: "p2 = Some p3" by (simp add: threadpool_new_def)
  obtain ok w3 where d: "run_state (start_database E connect) w2 = (ok, w3)"
    by (cases "run_state (start_database E connect) w2")
  obtain u w4 where k: "run_state (start_cache E) w3 = (u, w4)" by (cases "run_state (start_cache E) w3")
  have ok: "ok" "w' = w4"
    using assms(1) argc c c1(1) s p3 d k by (auto simp: boot_def split: if_splits)
  have w2: "pg_pool w2 = pool_new" "redis w2 = redis w" "db w2 = db w" "objects w2 = objects w"
    using s1(1) assms(2) by (auto simp: same_but_log_def)
  have w3: "length (conn_list (pg_pool w3)) = 10" "reserve (pg_pool w3) = 10" "get_free_conn (pg_pool w3) = 10"
    "redis w3 = redis w2" "db w3 = db w2" "objects w3 = objects w2"
    using d ok(1) w2(1) pool_init_result
    by (auto simp: start_database_def get_free_conn_def split: sum.splits dest!: pool_init_result)
  have "redis_ready (redis w3)" using assms(3) w2 w3 by simp
  then have "redis_frame w3 w4 \<and> redis_ready (redis w4)"
    using start_cache_ready [of E w3 w4] k by simp
  with ok(2) c1 w2 w3 show ?thesis by (auto simp: redis_frame_def)
qed

subsection \<open>Owners\<close>

lemma conn_inv_owners:
  assumes "conn_inv fd s"
  shows "owners fd s \<le> 1 \<and> (interest (netw s) fd = None \<longrightarrow> owners fd s = 0) \<and>
    (interest (netw s) fd \<noteq> None \<longrightarrow> max_fd s \<le> int (m_max_requests (workers s)) \<longrightarrow> owners fd s = 1)"
  using assms
  by (cases "interest (netw s) fd") (auto simp: conn_inv_def conn_ok_def owners_def armed_def split: if_splits)

lemma server_inv_conn: "server_inv s \<Longrightarrow> fd \<noteq> listenfd s \<Longrightarrow> conn_inv fd s"
  by (simp add: server_inv_def)

end
