(* ===== verification/Connection_Types.thy ===== *)
theory Connection_Types
  imports Main_Loop
begin

text \<open>
  The type invariant of the connection object of \<^verbatim>\<open>src/src/network/http_conn.h\<close>: its indices lie in
  its two buffers in their order, its pointers point into the received bytes, nothing was stored behind
  them, and its counters have the values the code expects. Every member function keeps it, so every
  registered connection of the server has it, under every interleaving of the event loop and the workers.
\<close>

definition within :: "nat \<Rightarrow> nat option \<Rightarrow> bool" where
  "within n p = (case p of None \<Rightarrow> True | Some q \<Rightarrow> q < n)"

definition conn_type :: "http_conn \<Rightarrow> bool" where
  "conn_type c = (buf_ok c \<and> m_write_index c < WRITE_BUFFER_SIZE \<and> m_iv_count c \<le> 2 \<and> apireq c \<le> 7 \<and>
     int32 (m_content_length c) \<and> within (m_read_index c) (m_url c) \<and> within (m_read_index c) (m_version c) \<and>
     within (m_read_index c) (m_host c))"

lemma within_simps [simp]: "within n None" "within n (Some q) \<longleftrightarrow> q < n"
  by (simp_all add: within_def)

lemma within_mono: "within m p \<Longrightarrow> m \<le> n \<Longrightarrow> within n p"
  by (cases p) auto

text \<open>The updates that cannot break it.\<close>

lemma conn_type_upd [simp]:
  "conn_type (c\<lparr>json_res := s\<rparr>) = conn_type c" "conn_type (c\<lparr>m_sockfd := i\<rparr>) = conn_type c"
  "conn_type (c\<lparr>m_write_buf := b\<rparr>) = conn_type c" "conn_type (c\<lparr>m_iv0 := s\<rparr>) = conn_type c"
  "conn_type (c\<lparr>m_iv1 := s\<rparr>) = conn_type c" "conn_type (c\<lparr>m_check_stat := t\<rparr>) = conn_type c"
  "conn_type (c\<lparr>m_linger := l\<rparr>) = conn_type c" "conn_type (c\<lparr>token := s\<rparr>) = conn_type c"
  "conn_type (c\<lparr>m_method := m\<rparr>) = conn_type c"
  by (simp_all add: conn_type_def buf_ok_def)

section \<open>Opening, reading, writing\<close>

lemma init_type [simp, intro]: "conn_type (init c)"
  by (simp add: conn_type_def init_def buf_ok_def WRITE_BUFFER_SIZE_def int32_def int_bounds)

lemma received_type:
  assumes "conn_type c" "m_read_index c + length d \<le> READ_BUFFER_SIZE"
  shows "conn_type (received d c)"
proof -
  have "buf_ok (received d c)" using assms received_buf_ok by (simp add: conn_type_def)
  moreover have "within (m_read_index c + length d) p" if "within (m_read_index c) p" for p
    using within_mono [OF that] by simp
  ultimately show ?thesis using assms(1) by (simp add: conn_type_def) (simp add: received_def)
qed

lemma read_loop_type: "conn_type c \<Longrightarrow> conn_type (snd (read_loop segs e c))"
proof (induction segs e c rule: read_loop.induct)
  case (1 segs e c)
  have "conn_type (received (take (READ_BUFFER_SIZE - m_read_index c) s) c)" for s
    using "1.prems" by (intro received_type) (auto simp: conn_type_def buf_ok_def min_def)
  with 1 show ?case
    by (simp add: read_loop.simps [of segs e c] Let_def received_def split: list.splits recv_end.splits)
qed

lemma read_type: "conn_type c \<Longrightarrow> conn_type (snd (read segs e c))"
  by (simp add: read_def read_loop_type)

lemma advance_type: "conn_type c \<Longrightarrow> conn_type (snd (advance temp c))"
  by (simp add: advance_def Let_def)

lemma write_loop_type: "conn_type c \<Longrightarrow> conn_type (fst (snd (snd (write_loop ks e c n))))"
proof (induction ks arbitrary: c n)
  case Nil
  then show ?case by (cases e) simp_all
next
  case (Cons k ks)
  obtain cont c1 where a: "advance (min k (length (to_send c))) c = (cont, c1)"
    by (cases "advance (min k (length (to_send c))) c")
  have "conn_type c1" using advance_type [OF Cons.prems, of "min k (length (to_send c))"] a by simp
  with Cons.IH [of c1 n] a show ?case by (auto simp: Let_def split: prod.splits)
qed

lemma conn_write_type: "conn_type c \<Longrightarrow> conn_type (fst (snd (snd (conn_write ks e c n))))"
  by (simp add: conn_write_def write_loop_type)

lemma close_conn_type: "conn_type c \<Longrightarrow> conn_type (fst (close_conn c n))"
  by (simp add: close_conn_def Let_def)

section \<open>The response\<close>

definition keeps_type :: "(http_conn \<Rightarrow> bool \<times> http_conn) \<Rightarrow> bool" where
  "keeps_type f = (\<forall>c. conn_type c \<longrightarrow> conn_type (snd (f c)))"

lemma keeps_typeD: "keeps_type f \<Longrightarrow> conn_type c \<Longrightarrow> conn_type (snd (f c))"
  by (simp add: keeps_type_def)

lemma add_response_type: "keeps_type (add_response s)"
  by (auto simp: keeps_type_def add_response_def Let_def conn_type_def buf_ok_def)

lemma add_linger_type: "keeps_type add_linger"
  using add_response_type by (auto simp: keeps_type_def add_linger_def)

lemma and_also_type: "keeps_type f \<Longrightarrow> keeps_type g \<Longrightarrow> keeps_type (and_also f g)"
  by (simp add: keeps_type_def and_also_def split_def Let_def)

lemma add_headers_type: "keeps_type (add_headers n t)"
  unfolding add_headers_def add_content_length_def add_content_type_def add_blank_line_def
  by (intro and_also_type add_response_type add_linger_type)

lemma iv_count_type: "conn_type c \<Longrightarrow> n \<le> 2 \<Longrightarrow> conn_type (c\<lparr>m_iv_count := n\<rparr>)"
  by (simp add: conn_type_def buf_ok_def)

lemma add_json_response_type: "keeps_type (add_json_response status title)"
  unfolding keeps_type_def add_json_response_def add_status_line_def
  by (auto simp: split_def Let_def iv_count_type keeps_typeD [OF add_response_type] keeps_typeD [OF add_headers_type])

lemma text_response_type: "keeps_type (text_response status title form)"
  unfolding keeps_type_def text_response_def add_status_line_def add_content_def
  by (auto simp: split_def Let_def iv_count_type keeps_typeD [OF add_response_type] keeps_typeD [OF add_headers_type])

lemma process_write_type: "conn_type c \<Longrightarrow> conn_type (snd (process_write ret c))"
  using keeps_typeD [OF add_json_response_type] keeps_typeD [OF text_response_type]
  by (cases ret) auto

section \<open>The parser\<close>

text \<open>The settled part: NULs may be stored anywhere in the buffer.\<close>

lemma wiped_zero: "wiped b b' \<Longrightarrow> \<forall>j \<ge> n. b j = NUL \<Longrightarrow> \<forall>j \<ge> n. b' j = NUL"
  unfolding wiped_def by metis

lemma same_cursor_type:
  assumes "conn_type c" "same_cursor c c'"
  shows "conn_type c'"
  using assms(1) wiped_zero [OF same_cursorD(15) [OF assms(2)], of "m_read_index c"]
  by (simp add: conn_type_def buf_ok_def same_cursorD [OF assms(2)])

lemma settles_type: "conn_type c \<Longrightarrow> settles c m \<Longrightarrow> conn_type (snd (fst (run_state m w)))"
  by (rule same_cursor_type [of c]) (simp_all add: settles_def)

lemma mark_route_bound: "a \<le> 7 \<Longrightarrow> mark_route url a \<le> 7"
  by (simp add: mark_route_def Let_def)

text \<open>The pointers set by the request line lie before the NUL that ends it.\<close>

lemma normalize_target_within:
  assumes "b q = NUL" "url \<le> q" "q < n"
  shows "within n (normalize_target b url)"
proof (cases "strncasecmp_eq (cstr b url) ''http://'' 7")
  case True
  then have 7: "url + 7 \<le> q"
    using strncasecmp_len [OF True] cstr_ends [of b q url, OF assms(1,2)] by simp
  have "k < length (cstr b (url + 7))" if "strchr (cstr b (url + 7)) (CHR ''/'') = Some k" for k
    using find_index_Some_less that by (fastforce simp: strchr_def)
  with 7 cstr_ends [of b q "url + 7", OF assms(1) 7] assms(3) True show ?thesis
    by (cases "strchr (cstr b (url + 7)) (CHR ''/'')") (fastforce simp: normalize_target_def)+
qed (use assms in \<open>simp add: normalize_target_def\<close>)

lemma parse_request_line_type:
  assumes c: "conn_type c" and q: "m_read_buf c q = NUL" "text \<le> q" "q < m_read_index c"
  shows "conn_type (snd (parse_request_line text c))"
proof (cases "strpbrk_blank (cstr (m_read_buf c) text)")
  case None
  with c show ?thesis by (simp add: parse_request_line_def conn_type_def buf_ok_def)
next
  case (Some i)
  let ?b1 = "(m_read_buf c)(text + i := NUL)" and ?u = "text + i + 1"
  have u: "?u \<le> q"
    using strpbrk_less [OF Some] cstr_ends [of "m_read_buf c" q "text", OF q(1,2)] by simp
  show ?thesis
  proof (cases "strpbrk_blank (cstr ?b1 ?u)")
    case None
    with c Some u q(3) show ?thesis
      by (simp add: parse_request_line_def Let_def conn_type_def buf_ok_def)
  next
    case k: (Some k)
    let ?b2 = "?b1(?u + k := NUL)"
    have v: "?u + k + 1 \<le> q"
      using strpbrk_less [OF k] cstr_ends [of ?b1 q ?u] q(1) u by fastforce
    have n: "within (m_read_index c) (normalize_target ?b2 ?u)"
      by (rule normalize_target_within [of _ q]) (use q u in auto)
    show ?thesis
      using c Some k u v q(3) n mark_route_bound [of "apireq c"]
      by (auto simp: parse_request_line_def Let_def conn_type_def buf_ok_def split: option.splits)
  qed
qed

lemma parse_header_field_type:
  assumes c: "conn_type c" and q: "m_read_buf c q = NUL" "text \<le> q" "q < m_read_index c"
  shows "conn_type (parse_header_field text c)"
proof -
  have h: "text + 5 + strspn_blank (cstr (m_read_buf c) (text + 5)) < m_read_index c"
    if "strncasecmp_eq (cstr (m_read_buf c) text) ''Host:'' 5"
  proof -
    have 5: "text + 5 \<le> q"
      using strncasecmp_len [OF that] cstr_ends [of "m_read_buf c" q "text", OF q(1,2)] by simp
    show ?thesis
      using cstr_ends [of "m_read_buf c" q "text + 5", OF q(1) 5] q(3)
        length_takeWhile_le [of "\<lambda>x. x = CHR '' '' \<or> x = TAB" "cstr (m_read_buf c) (text + 5)"]
      by (simp add: strspn_blank_def)
  qed
  show ?thesis
    using c h by (simp add: parse_header_field_def Let_def conn_type_def buf_ok_def)
qed

lemma parse_headers_type:
  assumes c: "conn_type c" and q: "m_read_buf c q = NUL" "text \<le> q" "q < m_read_index c"
  shows "conn_type (snd (fst (run_state (parse_headers E text c) w)))"
  using c parse_header_field_type [OF assms] settles_type [OF c h_delete.settled, of E w]
    settles_type [OF c h_get.settled, of E w] settles_type [OF c h_download.settled, of E w]
    settles_type [OF c h_health.settled, of E w]
  by (simp add: parse_headers_def reply_def)

text \<open>The line scanner, and one pass of the loop behind it.\<close>

lemma parse_line_type:
  assumes c: "conn_type c" and p: "parse_line c = (st, c')"
  shows "conn_type c'"
proof (cases "st = LINE_OK")
  case True
  define d where "d = c\<lparr>m_read_buf := m_read_buf c', m_checked_index := m_checked_index c'\<rparr>"
  note f = parse_line_ok_fields(4-6) [OF p [unfolded True]]
  have "c' = d" using parse_line_ok_frame [OF p [unfolded True]] unfolding d_def by blast
  moreover have "conn_type d" using c f by (simp add: d_def conn_type_def buf_ok_def)
  ultimately show ?thesis by simp
next
  case False
  define d where "d = c\<lparr>m_checked_index := m_checked_index c'\<rparr>"
  from parse_line_frame [OF p False] have "c' = d" "m_checked_index c \<le> m_checked_index c'"
    unfolding d_def by blast+
  moreover have "conn_type d"
    using c parse_line_open_bound [OF p False] calculation(2) by (auto simp: d_def conn_type_def buf_ok_def)
  ultimately show ?thesis by simp
qed

lemma loop_body_type:
  assumes c: "conn_type c" and q: "m_read_buf c q = NUL" "m_start_line c \<le> q" "q < m_read_index c"
    and b: "run_state (loop_body E st c) w = (r, w')"
  shows "case r of Inl (x, c') \<Rightarrow> conn_type c' | Inr (st', c') \<Rightarrow> conn_type c'"
proof -
  let ?c = "c\<lparr>m_start_line := m_checked_index c\<rparr>"
  have c1: "conn_type ?c" using c by (simp add: conn_type_def buf_ok_def)
  have t: "conn_type (snd (parse_request_line (m_start_line c) ?c))"
    "conn_type (snd (fst (run_state (parse_headers E (m_start_line c) ?c) w)))"
    "conn_type (snd (fst (run_state (parse_content E (m_start_line c) ?c) w)))"
    using parse_request_line_type [OF c1, of q "m_start_line c"] parse_headers_type [OF c1, of q "m_start_line c" E w]
      settles_type [OF c1 h_content.settled] q by auto
  from b t show ?thesis
    by (auto simp: loop_body_def Let_def get_line_def after_ret_def split_def split: CHECK_STATE.splits if_splits sum.splits)
qed

text \<open>In the content state no line was scanned; there the pointers are not touched.\<close>

lemma loop_body_content_type:
  assumes c: "conn_type c" and "m_check_stat c = CHECK_STATE_CONTENT" and b: "run_state (loop_body E st c) w = (r, w')"
  shows "case r of Inl (x, c') \<Rightarrow> conn_type c' | Inr (st', c') \<Rightarrow> conn_type c'"
proof -
  let ?c = "c\<lparr>m_start_line := m_checked_index c\<rparr>"
  have "conn_type ?c" using c by (simp add: conn_type_def buf_ok_def)
  from settles_type [OF this h_content.settled, of E "m_start_line c" w] assms(2) b show ?thesis
    by (auto simp: loop_body_def Let_def get_line_def after_ret_def split_def split: if_splits sum.splits)
qed

lemma process_read_loop_type:
  "conn_type c \<Longrightarrow> conn_type (snd (fst (process_read_loop E st c w)))"
proof (induction E st c w rule: process_read_loop.induct)
  case (1 E st c w)
  obtain st1 c1 where n: "next_line st c = (st1, c1)" by (cases "next_line st c")
  obtain x w1 where b: "run_state (loop_body E st1 c1) w = (x, w1)" by (cases "run_state (loop_body E st1 c1) w")
  have c1: "conn_type c1"
    using n "1.prems" parse_line_type [OF "1.prems"] by (auto simp: next_line_def split: if_splits)
  show ?case
  proof (cases "st1 = LINE_OK")
    case False
    with n c1 show ?thesis by (simp add: process_read_loop.simps [of E st c w])
  next
    case True
    have x: "case x of Inl (y, c') \<Rightarrow> conn_type c' | Inr (st', c') \<Rightarrow> conn_type c'"
    proof (cases "m_check_stat c = CHECK_STATE_CONTENT \<and> st = LINE_OK")
      case content: True
      with n have "c1 = c" by (simp add: next_line_def)
      with loop_body_content_type [OF c1 _ b] content show ?thesis by simp
    next
      case False
      with n True have p: "parse_line c = (LINE_OK, c1)" by (auto simp: next_line_def split: if_splits)
      note f = parse_line_ok_fields [OF p]
      show ?thesis
        by (rule loop_body_type [OF c1 parse_line_ok_nul [OF p] _ _ b])
           (use f "1.prems" in \<open>auto simp: conn_type_def buf_ok_def\<close>)
    qed
    show ?thesis
    proof (cases x)
      case (Inl y)
      with n b True x show ?thesis by (cases y) (simp add: process_read_loop.simps [of E st c w])
    next
      case (Inr y)
      obtain st2 c2 where y: "y = (st2, c2)" by (cases y)
      with "1.IH" [OF n [symmetric] _ b [symmetric] Inr y [symmetric]] n b True x Inr show ?thesis
        by (simp add: process_read_loop.simps [of E st c w])
    qed
  qed
qed

lemma process_type:
  assumes "conn_type c"
  shows "conn_type (fst (fst (run_state (process E c n) w)))"
proof -
  have r: "conn_type (snd (fst (run_state (process_read E c) w)))"
    using process_read_loop_type [OF assms] by (simp add: process_read_def)
  obtain ret c2 where o: "outcome (fst (run_state (process_read E c) w)) = (ret, c2)"
    by (cases "outcome (fst (run_state (process_read E c) w))")
  with r have "conn_type c2"
    by (cases "fst (run_state (process_read E c) w)" rule: outcome.cases) auto
  then show ?thesis
    using o process_write_type [of c2 ret] close_conn_type by (auto simp: process_outcome split_def Let_def)
qed

section \<open>The server\<close>

definition typed :: "('db, 'rd, 'ob) server \<Rightarrow> bool" where
  "typed s = (\<forall>fd. fd \<noteq> listenfd s \<longrightarrow> interest (netw s) fd \<noteq> None \<longrightarrow> conn_type (users s fd))"

lemma typed_update:
  assumes "typed s" "listenfd t = listenfd s" "dom (interest (netw t)) \<subseteq> dom (interest (netw s))"
    "users t = (users s)(g := c)" "conn_type (users s g) \<Longrightarrow> conn_type c"
  shows "typed t"
  unfolding typed_def
proof (intro allI impI)
  fix fd assume "fd \<noteq> listenfd t" "interest (netw t) fd \<noteq> None"
  then have "conn_type (users s fd)" using assms(1,2,3) by (auto simp: typed_def)
  with assms(4,5) show "conn_type (users t fd)" by (cases "fd = g") auto
qed

lemma close_conn_dom: "dom (interest (snd (close_conn c n))) \<subseteq> dom (interest n)"
  by (auto simp: close_conn_def removefd_def Let_def)

lemma write_loop_dom: "dom (interest (snd (snd (snd (write_loop ks e c n))))) = dom (interest n)"
proof (induction ks arbitrary: c n)
  case Nil
  then show ?case by (cases e) simp_all
next
  case (Cons k ks)
  let ?t = "min k (length (to_send c))"
  have "dom (interest (snd (snd (snd (write_loop ks e (snd (advance ?t c)) n))))) = dom (interest n)"
    by (rule Cons.IH)
  then show ?case by (simp add: Let_def split_def)
qed

lemma conn_write_dom: "dom (interest (snd (snd (snd (conn_write ks e c n))))) = dom (interest n)"
  by (simp add: conn_write_def write_loop_dom)

lemma process_dom: "dom (interest (snd (fst (run_state (process E c n) w)))) \<subseteq> dom (interest n)"
  using close_conn_dom by (auto simp: process_outcome split_def Let_def)

lemma close_user_typed:
  assumes "typed s"
  shows "typed (close_user g s)"
  by (rule typed_update [OF assms, of _ g "fst (close_conn (users s g) (netw s))"])
     (use close_conn_dom [of "users s g" "netw s"] in \<open>simp_all add: close_user_def split_def Let_def close_conn_type\<close>)

lemma submit_frame [simp]:
  "listenfd (submit g s) = listenfd s" "netw (submit g s) = netw s" "users (submit g s) = users s"
  by (simp_all add: submit_def server_log_def split_def split: bool.splits)

lemma on_readable_typed:
  assumes "typed s"
  shows "typed (on_readable k g s)"
proof -
  let ?s = "s\<lparr>users := (users s)(g := snd (read (k_segments k) (k_recv_end k) (users s g)))\<rparr>"
  have t: "typed ?s"
    by (rule typed_update [OF assms, of _ g "snd (read (k_segments k) (k_recv_end k) (users s g))"])
       (simp_all add: read_type)
  then have "typed (submit g ?s)" by (simp add: typed_def)
  with close_user_typed [OF t] show ?thesis by (simp add: on_readable_def split_def Let_def)
qed

lemma on_writable_typed:
  assumes "typed s"
  shows "typed (on_writable k g s)"
proof -
  let ?r = "conn_write (k_accepted k) (k_send_end k) (users s g) (netw s)"
  let ?s = "s\<lparr>users := (users s)(g := fst (snd (snd ?r))), netw := snd (snd (snd ?r))\<rparr>"
  have t: "typed ?s"
    by (rule typed_update [OF assms, of _ g "fst (snd (snd ?r))"]) (simp_all add: conn_write_type conn_write_dom)
  with close_user_typed [OF t] show ?thesis by (simp add: on_writable_def split_def Let_def)
qed

lemma on_accept_typed:
  assumes "typed s"
  shows "typed (on_accept r s)"
proof (cases r)
  case (Accept_failed e)
  then show ?thesis using assms by (simp add: on_accept_def server_log_def typed_def)
next
  case (Accepted g)
  let ?n = "(netw s)\<lparr>open_fds := insert g (open_fds (netw s)), m_user_count := m_user_count (netw s) + 1\<rparr>"
  have "interest (addfd g True ?n) fd = interest (netw s) fd \<or> fd = g" for fd
    by (auto simp: addfd_def setnonblock_def split: option.splits)
  then show ?thesis
    using assms Accepted
    by (auto simp: on_accept_def init_conn_def typed_def Let_def close_fd_def) (metis option.simps(3))+
qed

lemma handle_event_typed: "typed s \<Longrightarrow> typed (handle_event k ev s)"
  by (simp add: handle_event_def on_accept_typed close_user_typed on_readable_typed on_writable_typed)

lemma run_process_typed:
  assumes "typed s"
  shows "typed (run_process E g s)"
proof -
  let ?r = "fst (run_state (process E (users s g) (netw s)) (wrld s))"
  show ?thesis
    by (rule typed_update [OF assms, of _ g "fst ?r"])
       (use process_type [of "users s g" E "netw s" "wrld s"] process_dom [of E "users s g" "netw s" "wrld s"] in
         \<open>simp_all add: run_process_def split_def Let_def\<close>)
qed

lemma typed_workers [simp]: "typed (s\<lparr>workers := p\<rparr>) = typed s" "typed (s\<lparr>batch := b\<rparr>) = typed s"
  by (simp_all add: typed_def)

lemma worker_step_typed:
  assumes "typed s" "worker_step E i s = Some t"
  shows "typed t"
  using assms run_process_typed [OF assms(1)]
  by (auto simp: worker_step_def split: thread_pc.splits option.splits)

interpretation ty: invariant_system "server_start E" "server_step E" typed
  for E :: "('db, 'rd, 'ob) externals"
proof unfold_locales
  show "server_start E s \<Longrightarrow> typed s" for s
    by (auto simp: server_start_def typed_def serve_def addfd_def setnonblock_def empty_net_def)
  fix s t :: "('db, 'rd, 'ob) server"
  assume s: "typed s" "server_step E s t"
  from s(2) show "typed t"
  proof (cases rule: server_step.cases)
    case (step_wait evs)
    then show ?thesis using s(1) by (simp add: typed_def wait_returns_def interest_fold_deliver split: if_splits)
  next
    case (step_event ev rest k)
    then show ?thesis using handle_event_typed [of "s\<lparr>batch := rest\<rparr>"] s(1) by simp
  next
    case (step_worker i)
    then show ?thesis using worker_step_typed [OF s(1)] by simp
  qed
qed

end
