(* ===== verification/Request_Head.thy ===== *)
theory Request_Head
  imports Reference_Stores Http_Conn
begin

text \<open>
  The request parser against a specification on strings. A request is a method, a target, header
  fields and a body; \<open>request_text\<close> is its wire form. The specification reads the fields as strings
  and finds the route in a table; the theorems show that the buffer machine of
  \<^verbatim>\<open>src/src/network/http_conn.cpp\<close> (offsets, NUL writes, cursor) started on the wire form ends in the
  handler of that route, with the target, token, flags and body of the request.
\<close>

section \<open>Requests\<close>

record request =
  rq_method :: string
  rq_target :: string
  rq_fields :: "string list"
  rq_body :: string

definition crlf :: string where
  "crlf = [CR, LF]"

definition field_lines :: "string list \<Rightarrow> string" where
  "field_lines fs = concat (map (\<lambda>f. f @ crlf) fs)"

definition request_line :: "request \<Rightarrow> string" where
  "request_line r = rq_method r @ CHR '' '' # rq_target r @ CHR '' '' # ''HTTP/1.1''"

definition request_text :: "request \<Rightarrow> string" where
  "request_text r = request_line r @ crlf @ field_lines (rq_fields r) @ crlf @ rq_body r"

definition text_ok :: "string \<Rightarrow> bool" where
  "text_ok s = (line_bytes s \<and> NUL \<notin> set s)"

definition request_ok :: "request \<Rightarrow> bool" where
  "request_ok r = (text_ok (rq_method r) \<and> no_blank (rq_method r) \<and>
     text_ok (rq_target r) \<and> no_blank (rq_target r) \<and> take 1 (rq_target r) = ''/'' \<and>
     (\<forall>f \<in> set (rq_fields r). f \<noteq> [] \<and> text_ok f) \<and> NUL \<notin> set (rq_body r) \<and>
     length (request_text r) < READ_BUFFER_SIZE)"

section \<open>Header fields as strings\<close>

record head =
  hd_linger :: bool
  hd_length :: int
  hd_host :: "string option"
  hd_token :: string

definition field_value :: "nat \<Rightarrow> string \<Rightarrow> string" where
  "field_value n s = dropWhile (\<lambda>x. x = CHR '' '' \<or> x = TAB) (drop n s)"

definition head_field :: "string \<Rightarrow> head \<Rightarrow> head" where
  "head_field s h =
     (if strncasecmp_eq s ''Connection:'' 11 then
        (if strcasecmp_eq (field_value 11 s) ''keep-alive'' then h\<lparr>hd_linger := True\<rparr>
         else if strcasecmp_eq (field_value 11 s) ''close'' then h\<lparr>hd_linger := False\<rparr>
         else h)
      else if strncasecmp_eq s ''Content-Length:'' 15 then h\<lparr>hd_length := atoi (field_value 15 s)\<rparr>
      else if strncasecmp_eq s ''Host:'' 5 then h\<lparr>hd_host := Some (field_value 5 s)\<rparr>
      else if strncasecmp_eq s ''Authorization:'' 14 then
        (if starts_with (field_value 14 s) ''Bearer '' then h\<lparr>hd_token := drop 7 (field_value 14 s)\<rparr> else h)
      else h)"

definition no_head :: head where
  "no_head = \<lparr>hd_linger = True, hd_length = 0, hd_host = None, hd_token = ''''\<rparr>"

definition request_head :: "request \<Rightarrow> head" where
  "request_head r = fold head_field (rq_fields r) no_head"

section \<open>Routes\<close>

datatype route = Get_resources | Delete_resource | Post_resource | Put_resource | Login | Logout
  | Register | Upload_url | Download_url | Health | No_route

text \<open>The route marker as a table of target prefixes; only the health check wants an exact target.\<close>

definition prefix_table :: "(string \<times> nat) list" where
  "prefix_table = [(''/api/resources'', 1), (''/api/login'', 2), (''/api/logout'', 3), (''/api/register'', 4),
     (''/api/files/upload-url'', 5), (''/api/files/download-url'', 6)]"

definition route_marker :: "string \<Rightarrow> nat" where
  "route_marker url =
     (if url = ''/health'' then 7
      else case List.find (\<lambda>(p, n). starts_with url p) prefix_table of Some (p, n) \<Rightarrow> n | None \<Rightarrow> 0)"

fun route_of :: "METHOD \<Rightarrow> nat \<Rightarrow> route" where
  "route_of m a =
     (if a = 1 then (case m of GET \<Rightarrow> Get_resources | DELETE \<Rightarrow> Delete_resource | POST \<Rightarrow> Post_resource
                     | PUT \<Rightarrow> Put_resource | HEAD \<Rightarrow> No_route)
      else if m = POST then
        (if a = 2 then Login else if a = 3 then Logout else if a = 4 then Register
         else if a = 5 then Upload_url else No_route)
      else if m = GET then (if a = 6 then Download_url else if a = 7 then Health else No_route)
      else No_route)"

definition request_method :: "request \<Rightarrow> METHOD" where
  "request_method r = set_method (rq_method r) GET"

definition request_route :: "request \<Rightarrow> route" where
  "request_route r = route_of (request_method r) (route_marker (rq_target r))"

text \<open>
  The routes answered when the headers end; the account and upload routes, which wait for a body
  in any case; the rest waits for one only when a length was announced.
\<close>

definition at_head :: "route \<Rightarrow> bool" where
  "at_head x = (x \<in> {Get_resources, Delete_resource, Download_url, Health})"

definition wants_body :: "route \<Rightarrow> int \<Rightarrow> bool" where
  "wants_body x n = (\<not> at_head x \<and> (x \<in> {Login, Logout, Register, Upload_url} \<or> n \<noteq> 0))"

fun handler :: "('db, 'rd, 'ob) externals \<Rightarrow> route \<Rightarrow> nat \<Rightarrow> http_conn \<Rightarrow> ('db, 'rd, 'ob) handled" where
  "handler E Get_resources p c = handle_get_resources E c"
| "handler E Delete_resource p c = handle_delete_resource E c"
| "handler E Post_resource p c = handle_post_resource E p c"
| "handler E Put_resource p c = handle_put_resource E p c"
| "handler E Login p c = handle_login E p c"
| "handler E Logout p c = handle_logout E c"
| "handler E Register p c = handle_register E p c"
| "handler E Upload_url p c = handle_create_upload_url E p c"
| "handler E Download_url p c = handle_create_download_url E c"
| "handler E Health p c = handle_health E c"
| "handler E No_route p c = reply NO_RESOURCE c"

text \<open>
  What is to happen with a request once its head is read: \<open>p\<close> is the offset of the body.
\<close>

definition serve_request :: "('db, 'rd, 'ob) externals \<Rightarrow> request \<Rightarrow> nat \<Rightarrow> http_conn \<Rightarrow> ('db, 'rd, 'ob) handled" where
  "serve_request E r p c =
     (let x = request_route r; n = hd_length (request_head r) in
      if at_head x then handler E x p c
      else if \<not> wants_body x n then reply NO_RESOURCE c
      else if int (length (rq_body r)) < n then reply BAD_REQUEST c
      else handler E x p c)"

section \<open>The route table\<close>

lemma starts_with_take: "length p = n \<Longrightarrow> strncmp_eq s p n \<longleftrightarrow> starts_with s p"
  by (simp add: strncmp_eq_def starts_with_def)

text \<open>Of the tests of the code at most one succeeds, so their order does not matter.\<close>

lemma starts_with_clash:
  "starts_with s p \<Longrightarrow> starts_with s q \<Longrightarrow> take (length q) p = take (length p) q"
  unfolding starts_with_def by (metis min.commute take_take)

lemma mark_route_table: "mark_route url 0 = route_marker url"
proof -
  note clash = starts_with_clash [of url]
  let ?s = "starts_with url"
  have *: "?s ''/api/resources'' \<Longrightarrow> \<not> ?s ''/api/login''" "?s ''/api/resources'' \<Longrightarrow> \<not> ?s ''/api/logout''"
    "?s ''/api/resources'' \<Longrightarrow> \<not> ?s ''/api/register''" "?s ''/api/resources'' \<Longrightarrow> \<not> ?s ''/api/files/upload-url''"
    "?s ''/api/resources'' \<Longrightarrow> \<not> ?s ''/api/files/download-url''"
    "?s ''/api/login'' \<Longrightarrow> \<not> ?s ''/api/logout''" "?s ''/api/login'' \<Longrightarrow> \<not> ?s ''/api/register''"
    "?s ''/api/login'' \<Longrightarrow> \<not> ?s ''/api/files/upload-url''" "?s ''/api/login'' \<Longrightarrow> \<not> ?s ''/api/files/download-url''"
    "?s ''/api/logout'' \<Longrightarrow> \<not> ?s ''/api/register''" "?s ''/api/logout'' \<Longrightarrow> \<not> ?s ''/api/files/upload-url''"
    "?s ''/api/logout'' \<Longrightarrow> \<not> ?s ''/api/files/download-url''"
    "?s ''/api/register'' \<Longrightarrow> \<not> ?s ''/api/files/upload-url''" "?s ''/api/register'' \<Longrightarrow> \<not> ?s ''/api/files/download-url''"
    "?s ''/api/files/upload-url'' \<Longrightarrow> \<not> ?s ''/api/files/download-url''"
    by (rule notI, drule (1) clash, simp)+
  show ?thesis
    using * by (simp add: mark_route_def route_marker_def prefix_table_def starts_with_take Let_def)
qed

section \<open>Dispatch\<close>

text \<open>The empty line: the routes of the head are served, the others wait for the body or do not exist.\<close>

lemma parse_headers_end:
  assumes "m_read_buf c p = NUL"
  shows "parse_headers E p c =
    (let x = route_of (m_method c) (apireq c) in
     if at_head x then handler E x q c
     else if wants_body x (m_content_length c) then reply NO_REQUEST (c\<lparr>m_check_stat := CHECK_STATE_CONTENT\<rparr>)
     else reply NO_RESOURCE c)"
  using assms
  by (cases "m_method c") (auto simp: parse_headers_def at_head_def wants_body_def Let_def)

lemma end_body_keeps [simp]:
  "apireq (end_body p c) = apireq c" "m_method (end_body p c) = m_method c"
  "m_url (end_body p c) = m_url c" "token (end_body p c) = token c" "m_linger (end_body p c) = m_linger c"
  "m_host (end_body p c) = m_host c" "m_content_length (end_body p c) = m_content_length c"
  by (simp_all add: end_body_def)

lemma parse_content_route:
  assumes "\<not> at_head (route_of (m_method c) (apireq c))"
  shows "parse_content E p c =
    (if body_received c then handler E (route_of (m_method c) (apireq c)) p (end_body p c) else reply BAD_REQUEST c)"
proof (cases "body_received c")
  case True
  have k: "m_method (end_body p c) = m_method c" "apireq (end_body p c) = apireq c" by simp_all
  show ?thesis
    using assms True unfolding parse_content_def Let_def k
    by (cases "m_method c") (auto simp: at_head_def split: if_splits)
qed (simp add: parse_content_def)

section \<open>One header line\<close>

definition head_view :: "http_conn \<Rightarrow> head" where
  "head_view c = \<lparr>hd_linger = m_linger c, hd_length = m_content_length c,
     hd_host = map_option (cstr (m_read_buf c)) (m_host c), hd_token = token c\<rparr>"

lemma field_value_strspn: "field_value n s = drop (n + strspn_blank (drop n s)) s"
  by (simp add: field_value_def strspn_blank_def dropWhile_eq_drop add.commute)

lemma line_at_value:
  assumes "line_at b p f" "n \<le> length f"
  shows "cstr b (p + n) = drop n f" "cstr b (p + n + strspn_blank (drop n f)) = field_value n f"
proof -
  have d: "cstr b (p + k) = drop k f" if "k \<le> length f" for k
    using line_at_cstr [OF line_at_drop [of b p "take k f" "drop k f"]] assms(1) that by simp
  show "cstr b (p + n) = drop n f" by (rule d [OF assms(2)])
  have "n + strspn_blank (drop n f) \<le> length f"
    using assms(2) length_takeWhile_le [of _ "drop n f"] by (auto simp: strspn_blank_def le_diff_conv2 add.commute)
  from d [OF this] show "cstr b (p + n + strspn_blank (drop n f)) = field_value n f"
    by (simp add: field_value_strspn add.assoc)
qed

text \<open>The effect of a header line on the connection is the effect of its text on the head.\<close>

lemma parse_header_field_view:
  assumes "line_at (m_read_buf c) p f"
  shows "head_view (parse_header_field p c) = head_field f (head_view c)"
proof -
  note s = line_at_cstr [OF assms]
  have v: "cstr (m_read_buf c) (p + n) = drop n f"
    "cstr (m_read_buf c) (p + n + strspn_blank (drop n f)) = field_value n f"
    if "strncasecmp_eq f h n" "n \<le> length h" for n h
    using line_at_value [OF assms strncasecmp_len [OF that]] .
  note v11 = v [of "''Connection:''" 11] and v15 = v [of "''Content-Length:''" 15]
    and v5 = v [of "''Host:''" 5] and v14 = v [of "''Authorization:''" 14]
  show ?thesis
    using s v11 v15 v5 v14
    by (simp add: parse_header_field_def Let_def head_field_def head_view_def atoi_def)
qed

text \<open>What a good line leaves: NULs over its terminator, cursor and line start behind it.\<close>

definition end_line :: "nat \<Rightarrow> http_conn \<Rightarrow> http_conn" where
  "end_line n c = (let i = m_checked_index c + n in
     c\<lparr>m_read_buf := (m_read_buf c)(i := NUL, i + 1 := NUL), m_checked_index := i + 2, m_start_line := i + 2\<rparr>)"

text \<open>The parser has moved over \<open>n\<close> bytes of the head and touched nothing outside of them.\<close>

definition passed :: "nat \<Rightarrow> http_conn \<Rightarrow> http_conn \<Rightarrow> bool" where
  "passed n c c' = (m_checked_index c' = m_checked_index c + n \<and> m_start_line c' = m_checked_index c' \<and>
     m_check_stat c' = m_check_stat c \<and> m_read_index c' = m_read_index c \<and> m_sockfd c' = m_sockfd c \<and>
     m_method c' = m_method c \<and> apireq c' = apireq c \<and> m_url c' = m_url c \<and> json_res c' = json_res c \<and>
     (\<forall>j. j < m_checked_index c \<or> m_checked_index c' \<le> j \<longrightarrow> m_read_buf c' j = m_read_buf c j))"

lemma passed_trans: "passed m a b \<Longrightarrow> passed n b c \<Longrightarrow> passed (m + n) a c"
  by (auto simp: passed_def)

lemma passed_holds:
  assumes "passed n c c'" "holds (m_read_buf c) p s" "p + length s \<le> m_checked_index c \<or> m_checked_index c' \<le> p"
  shows "holds (m_read_buf c') p s"
  unfolding holds_def
proof (intro allI impI)
  fix k assume k: "k < length s"
  with assms(1,3) have "m_read_buf c' (p + k) = m_read_buf c (p + k)" by (auto simp: passed_def)
  with assms(2) k show "m_read_buf c' (p + k) = s ! k" by (simp add: holds_def)
qed

lemma passed_line_at:
  assumes "passed n c c'" "line_at (m_read_buf c) p s" "p + length s < m_checked_index c"
  shows "line_at (m_read_buf c') p s"
  using assms passed_holds [OF assms(1), of p s] by (auto simp: line_at_def passed_def)

text \<open>A pointer of the connection into the part of the buffer behind the cursor's back, with its string.\<close>

definition settled_at :: "http_conn \<Rightarrow> nat option \<Rightarrow> string option \<Rightarrow> bool" where
  "settled_at c p s = rel_option (\<lambda>q t. line_at (m_read_buf c) q t \<and> q + length t < m_checked_index c) p s"

lemma settled_at_None [simp]: "settled_at c None s \<longleftrightarrow> s = None"
  by (cases s) (auto simp: settled_at_def)

lemma settled_at_Some [simp]:
  "settled_at c (Some q) s \<longleftrightarrow> (\<exists>t. s = Some t \<and> line_at (m_read_buf c) q t \<and> q + length t < m_checked_index c)"
  by (cases s) (auto simp: settled_at_def)

lemma settled_at_cstr: "settled_at c p s \<Longrightarrow> map_option (cstr (m_read_buf c)) p = s"
  by (cases p) (auto simp: line_at_cstr)

lemma settled_at_passed: "settled_at c p s \<Longrightarrow> passed n c c' \<Longrightarrow> settled_at c' p s"
  by (cases p) (auto simp: passed_line_at, simp add: passed_def)

lemma line_step:
  assumes "holds (m_read_buf c) (m_checked_index c) (f @ crlf)" "text_ok f" "m_start_line c = m_checked_index c"
    "m_checked_index c + length f + 2 \<le> m_read_index c" "m_read_index c < READ_BUFFER_SIZE"
  shows "passed (length f + 2) c (end_line (length f) c)"
    "line_at (m_read_buf (end_line (length f) c)) (m_checked_index c) f"
    "parse_line c = (LINE_OK, (end_line (length f) c)\<lparr>m_start_line := m_checked_index c\<rparr>)"
proof -
  show "passed (length f + 2) c (end_line (length f) c)"
    by (auto simp: passed_def end_line_def Let_def)
  show "line_at (m_read_buf (end_line (length f) c)) (m_checked_index c) f"
    using assms by (auto simp: line_at_def end_line_def Let_def crlf_def text_ok_def)
  show "parse_line c = (LINE_OK, (end_line (length f) c)\<lparr>m_start_line := m_checked_index c\<rparr>)"
  proof -
    let ?i = "m_checked_index c + length f"
    have "parse_line c = (LINE_OK, c\<lparr>m_read_buf := (m_read_buf c)(?i := NUL, ?i + 1 := NUL), m_checked_index := ?i + 2\<rparr>)"
      using assms parse_line_complete [of c f] by (simp add: crlf_def text_ok_def)
    moreover have "c\<lparr>m_read_buf := b, m_checked_index := k\<rparr> =
        c\<lparr>m_read_buf := b, m_checked_index := k, m_start_line := m_checked_index c\<rparr>" for b k
      using assms(3) by (cases c) simp
    ultimately show ?thesis by (simp add: end_line_def Let_def)
  qed
qed

text \<open>The loop on a line of the head, in the header state.\<close>

lemma loop_header_line:
  assumes "holds (m_read_buf c) (m_checked_index c) (f @ crlf)" "text_ok f" "m_start_line c = m_checked_index c"
    "m_checked_index c + length f + 2 \<le> m_read_index c" "m_read_index c < READ_BUFFER_SIZE"
    "m_check_stat c = CHECK_STATE_HEADER" "f \<noteq> []"
  shows "process_read_loop E LINE_OK c w =
    process_read_loop E LINE_OK (parse_header_field (m_checked_index c) (end_line (length f) c)) w"
proof -
  let ?c = "end_line (length f) c"
  note l = line_step [OF assms(1-5)]
  have stat: "m_check_stat ?c = CHECK_STATE_HEADER" "m_start_line ?c = m_checked_index ?c"
    using l(1) assms(6) by (auto simp: passed_def)
  have "m_read_buf ?c (m_checked_index c) \<noteq> NUL"
    using l(2) assms(7) by (cases f) (auto simp: line_at_def)
  then have "run_state (loop_body E LINE_OK (?c\<lparr>m_start_line := m_checked_index c\<rparr>)) w =
      (Inr (LINE_OK, parse_header_field (m_checked_index c) ?c), w)"
    using stat by (simp add: loop_body_def get_line_def parse_headers_def reply_def after_ret_def flip: stat(2))
  then show ?thesis
    using process_read_loop_step [OF l(3)] assms(6) by simp
qed

lemma parse_header_field_passed:
  "passed n a c \<Longrightarrow> passed n a (parse_header_field p c)"
  by (simp add: passed_def parse_header_field_def Let_def)

text \<open>The host pointer after a header line lies in that line or where it was.\<close>

lemma parse_header_field_host:
  assumes "line_at (m_read_buf c) p f" "p + length f < m_checked_index c" "settled_at c (m_host c) h"
  shows "\<exists>h'. settled_at (parse_header_field p c) (m_host (parse_header_field p c)) h'"
proof (cases "m_host (parse_header_field p c) = m_host c")
  case True
  with True assms(3) parse_header_field_frame [of p c] show ?thesis by (auto simp: settled_at_def)
next
  case False
  define k where "k = 5 + strspn_blank (drop 5 f)"
  from False have h: "strncasecmp_eq f ''Host:'' 5" "m_host (parse_header_field p c) = Some (p + 5 + strspn_blank (cstr (m_read_buf c) (p + 5)))"
    using line_at_cstr [OF assms(1)] by (auto simp: parse_header_field_def Let_def split: if_splits)
  have n: "5 \<le> length f" using strncasecmp_len [OF h(1)] by simp
  then have k: "k \<le> length f"
    using length_takeWhile_le [of _ "drop 5 f"] by (auto simp: k_def strspn_blank_def le_diff_conv2 add.commute)
  have "m_host (parse_header_field p c) = Some (p + k)"
    using h(2) line_at_value(1) [OF assms(1) n] by (simp add: k_def)
  moreover have "line_at (m_read_buf c) (p + k) (drop k f)"
    using line_at_drop [of _ p "take k f" "drop k f"] assms(1) k by simp
  ultimately show ?thesis
    using k assms(2) parse_header_field_frame [of p c] by auto
qed

lemma field_lines_simps [simp]:
  "field_lines [] = []" "field_lines (f # fs) = f @ crlf @ field_lines fs"
  by (simp_all add: field_lines_def)

lemma length_crlf [simp]: "length crlf = 2"
  by (simp add: crlf_def)

text \<open>All header lines: the loop goes on behind them, with their effects on the head.\<close>

lemma loop_header_lines:
  assumes "holds (m_read_buf c) (m_checked_index c) (field_lines fs)" "\<forall>f \<in> set fs. f \<noteq> [] \<and> text_ok f"
    "m_start_line c = m_checked_index c" "m_checked_index c + length (field_lines fs) \<le> m_read_index c"
    "m_read_index c < READ_BUFFER_SIZE" "m_check_stat c = CHECK_STATE_HEADER" "settled_at c (m_host c) h"
  shows "\<exists>c' h'. process_read_loop E LINE_OK c w = process_read_loop E LINE_OK c' w \<and>
    passed (length (field_lines fs)) c c' \<and> head_view c' = fold head_field fs (head_view c) \<and>
    settled_at c' (m_host c') h'"
  using assms
proof (induction fs arbitrary: c h)
  case Nil
  have "passed 0 c c" using Nil.prems by (simp add: passed_def)
  with Nil.prems show ?case by auto
next
  case (Cons f fs)
  let ?c1 = "end_line (length f) c"
  let ?c2 = "parse_header_field (m_checked_index c) ?c1"
  have p: "holds (m_read_buf c) (m_checked_index c) (f @ crlf)" "text_ok f" "f \<noteq> []"
    "m_checked_index c + length f + 2 \<le> m_read_index c"
    using Cons.prems by (simp_all add: holds_append)
  note l = line_step [OF p(1,2) Cons.prems(3) p(4) Cons.prems(5)]
  have m: "m_checked_index c + length f < m_checked_index ?c1" using l(1) by (simp add: passed_def)
  have "settled_at ?c1 (m_host ?c1) h"
    using settled_at_passed [OF Cons.prems(7) l(1)] by (simp add: end_line_def Let_def)
  from parse_header_field_host [OF l(2) m this] obtain h2 where h2: "settled_at ?c2 (m_host ?c2) h2" by blast
  have p2: "passed (length f + 2) c ?c2" by (rule parse_header_field_passed [OF l(1)])
  have v: "head_view ?c2 = head_field f (head_view c)"
  proof -
    have "head_view ?c1 = head_view c"
      using settled_at_cstr [OF Cons.prems(7)] settled_at_cstr [OF settled_at_passed [OF Cons.prems(7) l(1)]]
      by (simp add: head_view_def end_line_def Let_def)
    with parse_header_field_view [OF l(2)] show ?thesis by simp
  qed
  have "holds (m_read_buf c) (m_checked_index c + length f + 2) (field_lines fs)"
    using Cons.prems(1) by (simp add: add.assoc)
  with passed_holds [OF p2, of "m_checked_index ?c2"] have "holds (m_read_buf ?c2) (m_checked_index ?c2) (field_lines fs)"
    using p2 by (simp add: passed_def add.assoc)
  then obtain c' h' where i: "process_read_loop E LINE_OK ?c2 w = process_read_loop E LINE_OK c' w"
    "passed (length (field_lines fs)) ?c2 c'" "head_view c' = fold head_field fs (head_view ?c2)"
    "settled_at c' (m_host c') h'"
    using Cons.IH [of ?c2 h2] Cons.prems p2 h2 by (auto simp: passed_def)
  show ?case
  proof (intro exI conjI)
    show "process_read_loop E LINE_OK c w = process_read_loop E LINE_OK c' w"
      by (rule trans [OF loop_header_line [OF p(1,2) Cons.prems(3) p(4) Cons.prems(5,6) p(3)] i(1)])
    show "passed (length (field_lines (f # fs))) c c'"
      using passed_trans [OF p2 i(2)] by (simp add: add.assoc)
    show "head_view c' = fold head_field (f # fs) (head_view c)" using i(3) v by simp
  qed (rule i(4))
qed

section \<open>The request line\<close>

text \<open>The connection once the request line has been read.\<close>

lemma loop_request_line:
  assumes r: "request_ok r" and "c = received (request_text r) (init c0)"
  shows "\<exists>c'. process_read_loop E LINE_OK c w = process_read_loop E LINE_OK c' w \<and>
    m_checked_index c' = length (request_line r) + 2 \<and> m_start_line c' = m_checked_index c' \<and>
    m_check_stat c' = CHECK_STATE_HEADER \<and> m_read_index c' = length (request_text r) \<and>
    m_sockfd c' = m_sockfd c0 \<and> json_res c' = '''' \<and>
    m_method c' = request_method r \<and> apireq c' = route_marker (rq_target r) \<and>
    settled_at c' (m_url c') (Some (rq_target r)) \<and> head_view c' = no_head \<and> m_host c' = None \<and>
    holds (m_read_buf c') (m_checked_index c') (field_lines (rq_fields r) @ crlf @ rq_body r) \<and>
    (\<forall>j \<ge> m_read_index c'. m_read_buf c' j = NUL)"
proof -
  let ?m = "rq_method r" and ?u = "rq_target r" and ?l = "request_line r"
  have c: "m_read_buf c = buf_write (\<lambda>_. NUL) 0 (request_text r)" "m_read_index c = length (request_text r)"
    "m_checked_index c = 0" "m_start_line c = 0" "m_check_stat c = CHECK_STATE_REQUESTLINE"
    "m_method c = GET" "apireq c = 0" "head_view c = no_head" "m_host c = None" "m_sockfd c = m_sockfd c0"
    "json_res c = ''''"
    by (simp_all add: assms(2) init_def received_def head_view_def no_head_def)
  have "text_ok ?l"
    using r by (auto simp: request_ok_def text_ok_def request_line_def line_bytes_def)
  have h: "holds (m_read_buf c) 0 (?l @ crlf @ field_lines (rq_fields r) @ crlf @ rq_body r)"
    using holds_buf_write [of "\<lambda>_. NUL" 0 "request_text r"] by (simp add: c request_text_def)
  have len: "length ?l + 2 \<le> m_read_index c" "m_read_index c < READ_BUFFER_SIZE"
    using r by (simp_all add: c request_text_def request_ok_def)
  have hl: "holds (m_read_buf c) (m_checked_index c) (?l @ crlf)" using h by (simp add: c)
  note l = line_step [OF hl \<open>text_ok ?l\<close>]
  define d where "d = end_line (length ?l) c"
  have p: "passed (length ?l + 2) c d" and at: "line_at (m_read_buf d) 0 ?l"
    and pl: "parse_line c = (LINE_OK, d\<lparr>m_start_line := 0\<rparr>)"
    using l len by (simp_all add: c d_def)
  obtain u where u: "?u = CHR ''/'' # u" using r by (cases ?u) (auto simp: request_ok_def)
  let ?p = "length ?m" and ?q = "length ?m + 1 + length ?u"
  define c' where "c' = d\<lparr>m_read_buf := (m_read_buf d)(?p := NUL, ?q := NUL), m_url := Some (?p + 1),
    m_method := set_method ?m (m_method d), m_version := Some (?q + 1),
    apireq := mark_route ?u (apireq d), m_check_stat := CHECK_STATE_HEADER\<rparr>"
  have rl: "parse_request_line 0 d = (NO_REQUEST, c')"
    using parse_request_line_origin [of d 0 ?m "CHR '' ''" ?u "CHR '' ''" "''HTTP/1.1''" u] at r u
    by (simp add: request_line_def request_ok_def strcasecmp_eq_def c'_def Let_def)
  have d: "m_start_line d = m_checked_index d" "m_check_stat d = CHECK_STATE_REQUESTLINE"
    using p by (simp_all add: passed_def c)
  have "run_state (loop_body E LINE_OK (d\<lparr>m_start_line := 0\<rparr>)) w = (Inr (LINE_OK, c'), w)"
    using d rl by (simp add: loop_body_def get_line_def flip: d(1))
  then have step: "process_read_loop E LINE_OK c w = process_read_loop E LINE_OK c' w"
    using process_read_loop_step [OF pl] c(5) by simp
  have chk: "m_checked_index c' = length ?l + 2" "m_read_index c' = m_read_index c" "m_checked_index c' = m_checked_index d"
    using p by (simp_all add: c'_def passed_def c)
  have ql: "?q < length ?l" by (simp add: request_line_def)
  have url: "line_at (m_read_buf c') (?p + 1) ?u"
    using line_at_cut [of "(m_read_buf d)(?p := NUL)" "?p + 1" ?u "CHR '' ''" "''HTTP/1.1''"]
      line_at_cut [of "m_read_buf d" 0 ?m "CHR '' ''" "?u @ CHR '' '' # ''HTTP/1.1''"] at
    by (simp add: request_line_def c'_def)
  have rest: "holds (m_read_buf c') (m_checked_index c') (field_lines (rq_fields r) @ crlf @ rq_body r)"
  proof -
    have "holds (m_read_buf c) (m_checked_index d) (field_lines (rq_fields r) @ crlf @ rq_body r)"
      using h chk by simp
    from passed_holds [OF p this] show ?thesis
      unfolding chk(3) using chk ql by (simp add: c'_def del: holds_append)
  qed
  have nul: "\<forall>j \<ge> m_read_index c'. m_read_buf c' j = NUL"
  proof (intro allI impI)
    fix j assume "m_read_index c' \<le> j"
    with p chk len c have "m_read_buf d j = NUL" by (simp add: passed_def)
    then show "m_read_buf c' j = NUL" by (simp add: c'_def)
  qed
  have "head_view c' = no_head" "m_host c' = None"
    using c(8,9) by (simp_all add: c'_def d_def end_line_def Let_def head_view_def)
  moreover have "m_url c' = Some (?p + 1)" "m_check_stat c' = CHECK_STATE_HEADER"
    "m_start_line c' = m_checked_index c'" "m_sockfd c' = m_sockfd c0" "json_res c' = ''''"
    "m_method c' = request_method r" "apireq c' = route_marker (rq_target r)"
    using p d(1) c by (simp_all add: c'_def passed_def request_method_def mark_route_table)
  ultimately show ?thesis
    using step chk(1,2) url rest nul c(2) ql by (intro exI [of _ c']) simp
qed

section \<open>The end of the head\<close>

text \<open>\<open>carries r p c\<close>: a handler that looks at \<open>c\<close>, with the body at offset \<open>p\<close>, finds the request \<open>r\<close>.\<close>

definition carries :: "request \<Rightarrow> nat \<Rightarrow> http_conn \<Rightarrow> bool" where
  "carries r p c = (m_method c = request_method r \<and> apireq c = route_marker (rq_target r) \<and>
     map_option (cstr (m_read_buf c)) (m_url c) = Some (rq_target r) \<and> head_view c = request_head r \<and>
     json_res c = '''' \<and>
     (let n = hd_length (request_head r) in
      wants_body (request_route r) n \<longrightarrow> n \<le> int (length (rq_body r)) \<longrightarrow>
      cstr (m_read_buf c) p = take (nat n) (rq_body r)))"

lemma loop_head_end:
  assumes "holds (m_read_buf c) (m_checked_index c) crlf" "m_start_line c = m_checked_index c"
    "m_checked_index c + 2 \<le> m_read_index c" "m_read_index c < READ_BUFFER_SIZE" "m_check_stat c = CHECK_STATE_HEADER"
  shows "process_read_loop E LINE_OK c w =
    (let c1 = end_line 0 c; x = route_of (m_method c) (apireq c) in
     if at_head x then run_state (handler E x q c1) w
     else if wants_body x (m_content_length c)
     then run_state (parse_content E (m_checked_index c1) (c1\<lparr>m_check_stat := CHECK_STATE_CONTENT\<rparr>)) w
     else ((Inr NO_RESOURCE, c1), w))"
proof -
  let ?c = "end_line 0 c" and ?x = "route_of (m_method c) (apireq c)"
  have l: "parse_line c = (LINE_OK, ?c\<lparr>m_start_line := m_checked_index c\<rparr>)" "m_start_line ?c = m_checked_index ?c"
    "m_check_stat ?c = CHECK_STATE_HEADER" "m_read_buf ?c (m_checked_index c) = NUL"
    "m_method ?c = m_method c" "apireq ?c = apireq c" "m_content_length ?c = m_content_length c"
    using line_step [of c "[]"] assms by (simp_all add: text_ok_def end_line_def Let_def)
  note ph = parse_headers_end [where c = ?c, OF l(4), of E q, unfolded l(5-7) Let_def]
  have body: "run_state (loop_body E LINE_OK (?c\<lparr>m_start_line := m_checked_index c\<rparr>)) w =
      (let ((r, c'), w') = run_state (parse_headers E (m_checked_index c) ?c) w in (after_ret LINE_OK (r, c'), w'))"
    using l(3) by (simp add: loop_body_def get_line_def split_def Let_def flip: l(2))
  have ans: "fst (fst (run_state (handler E ?x q ?c) w)) \<noteq> Inr NO_REQUEST" if "at_head ?x"
    using that h_get.answers [of E ?c w] h_delete.answers [of E ?c w] h_download.answers [of E ?c w] h_health.answers [of E ?c w]
    by (auto simp: at_head_def simp del: route_of.simps)
  show ?thesis
  proof (cases "at_head ?x \<or> \<not> wants_body ?x (m_content_length c)")
    case True
    then have "process_read_loop E LINE_OK c w = run_state (parse_headers E (m_checked_index c) ?c) w"
      using l(1) assms(5) body ans
      by (auto simp: process_read_loop.simps [of E LINE_OK c] next_line_def ph after_ret_def reply_def split_def Let_def
          simp del: route_of.simps)
    with True show ?thesis by (cases "at_head ?x") (simp_all add: ph Let_def reply_def del: route_of.simps)
  next
    case False
    let ?d = "?c\<lparr>m_check_stat := CHECK_STATE_CONTENT\<rparr>"
    have "process_read_loop E LINE_OK c w = process_read_loop E LINE_OK ?d w"
      by (rule process_read_loop_step [OF l(1)])
         (use assms(5) body ph False in \<open>simp_all add: reply_def after_ret_def del: route_of.simps\<close>)
    also have "\<dots> = run_state (parse_content E (m_checked_index ?c) ?d) w"
    proof -
      have "?d\<lparr>m_start_line := m_checked_index ?c\<rparr> = ?c\<lparr>m_start_line := m_checked_index ?c, m_check_stat := CHECK_STATE_CONTENT\<rparr>"
        by simp
      also have "\<dots> = ?d" by (simp flip: l(2))
      finally have e: "?d\<lparr>m_start_line := m_checked_index ?c\<rparr> = ?d" .
      show ?thesis
        using h_content.answers [of E "m_checked_index ?c" ?d w]
        by (simp add: process_read_loop.simps [of E LINE_OK ?d] next_line_def loop_body_def get_line_def after_ret_def
            split_def l(2) e)
    qed
    finally show ?thesis using False by (simp add: Let_def del: route_of.simps)
  qed
qed

lemma settled_at_body:
  assumes "settled_at c p s" "m_checked_index c \<le> q"
  shows "settled_at (c\<lparr>m_read_buf := (m_read_buf c)(q := NUL)\<rparr>) p s"
  using assms by (cases p) (auto intro!: line_at_upd)

lemma settled_at_end_body:
  assumes "settled_at c p s" "0 \<le> m_content_length c"
  shows "settled_at (end_body (m_checked_index c) c) p s"
  using settled_at_body [OF assms(1), of "nat (body_end (m_checked_index c) c)"] assms
  by (auto simp: end_body_def body_end_def)

lemma head_view_end_body:
  assumes "settled_at c (m_host c) h" "0 \<le> m_content_length c"
  shows "head_view (end_body (m_checked_index c) c) = head_view c"
  using settled_at_cstr [OF assms(1)] settled_at_cstr [OF settled_at_end_body [OF assms]]
  by (simp add: head_view_def)

text \<open>The test for a complete body, and the body a handler sees.\<close>

lemma body_received_iff:
  assumes "0 \<le> m_content_length c" "m_content_length c + int READ_BUFFER_SIZE \<le> INT_MAX"
    "m_read_index c = m_checked_index c + n" "m_read_index c < READ_BUFFER_SIZE"
  shows "body_received c \<longleftrightarrow> m_content_length c \<le> int n"
proof -
  have "int32 (m_content_length c + int (m_checked_index c))"
    using assms by (intro int32_nonneg) auto
  with assms show ?thesis by (auto simp: body_received_def)
qed

lemma end_body_text:
  assumes "holds (m_read_buf c) p s" "NUL \<notin> set s" "0 \<le> m_content_length c"
    "m_content_length c \<le> int (length s)" "p + length s < READ_BUFFER_SIZE"
  shows "cstr (m_read_buf (end_body p c)) p = take (nat (m_content_length c)) s"
proof -
  define n where "n = nat (m_content_length c)"
  have n: "m_content_length c = int n" "n \<le> length s" using assms by (auto simp: n_def)
  have e: "m_read_buf (end_body p c) = (m_read_buf c)(p + n := NUL)"
    using n assms(5) by (simp add: end_body_def body_end_def nat_int_add)
  have "cstr ((m_read_buf c)(p + n := NUL)) p = take n s"
  proof (rule cstr_eqI)
    show "holds ((m_read_buf c)(p + n := NUL)) p (take n s)"
      using assms(1) n(2) by (auto simp: holds_def)
  qed (use assms n(2) in \<open>auto dest: in_set_takeD\<close>)
  then show ?thesis by (simp add: e n_def)
qed

text \<open>The connection at the end of the head, whatever the route.\<close>

lemma head_read:
  assumes r: "request_ok r"
  shows "\<exists>c h. process_read_loop E LINE_OK (received (request_text r) (init c0)) w = process_read_loop E LINE_OK c w \<and>
    m_start_line c = m_checked_index c \<and> m_check_stat c = CHECK_STATE_HEADER \<and> m_sockfd c = m_sockfd c0 \<and>
    m_read_index c = m_checked_index c + 2 + length (rq_body r) \<and> m_read_index c < READ_BUFFER_SIZE \<and>
    holds (m_read_buf c) (m_checked_index c) (crlf @ rq_body r) \<and> json_res c = '''' \<and>
    m_method c = request_method r \<and> apireq c = route_marker (rq_target r) \<and> head_view c = request_head r \<and>
    settled_at c (m_url c) (Some (rq_target r)) \<and> settled_at c (m_host c) h"
proof -
  obtain c1 where c1: "process_read_loop E LINE_OK (received (request_text r) (init c0)) w = process_read_loop E LINE_OK c1 w"
    "m_checked_index c1 = length (request_line r) + 2" "m_start_line c1 = m_checked_index c1"
    "m_check_stat c1 = CHECK_STATE_HEADER" "m_read_index c1 = length (request_text r)"
    "m_sockfd c1 = m_sockfd c0" "json_res c1 = ''''"
    "m_method c1 = request_method r" "apireq c1 = route_marker (rq_target r)"
    "settled_at c1 (m_url c1) (Some (rq_target r))" "head_view c1 = no_head" "m_host c1 = None"
    "holds (m_read_buf c1) (m_checked_index c1) (field_lines (rq_fields r) @ crlf @ rq_body r)"
    using loop_request_line [OF r refl, of E c0 w] by blast
  let ?n = "length (field_lines (rq_fields r))"
  have len: "length (request_text r) = length (request_line r) + 2 + ?n + 2 + length (rq_body r)"
    "length (request_text r) < READ_BUFFER_SIZE"
    using r by (simp_all add: request_text_def request_ok_def)
  obtain c h where c: "process_read_loop E LINE_OK c1 w = process_read_loop E LINE_OK c w" "passed ?n c1 c"
    "head_view c = fold head_field (rq_fields r) (head_view c1)" "settled_at c (m_host c) h"
    using loop_header_lines [of c1 "rq_fields r" None E w] c1 len r by (auto simp: request_ok_def)
  have "holds (m_read_buf c) (m_checked_index c) (crlf @ rq_body r)"
    using passed_holds [OF c(2), of "m_checked_index c" "crlf @ rq_body r"] c(2) c1(13)
    by (simp add: passed_def del: holds_append) (simp add: add.assoc)
  with c c1 len settled_at_passed [OF c1(10) c(2)] show ?thesis
    by (intro exI [of _ c] exI [of _ h]) (auto simp: passed_def request_head_def)
qed

text \<open>The connection behind the empty line, with the body next.\<close>

definition head_done :: "request \<Rightarrow> nat \<Rightarrow> http_conn \<Rightarrow> bool" where
  "head_done r p c = (m_checked_index c = p \<and> m_read_index c = p + length (rq_body r) \<and>
     m_read_index c < READ_BUFFER_SIZE \<and> holds (m_read_buf c) p (rq_body r) \<and>
     head_view c = request_head r \<and> settled_at c (m_host c) (hd_host (head_view c)) \<and>
     settled_at c (m_url c) (Some (rq_target r)) \<and>
     m_method c = request_method r \<and> apireq c = route_marker (rq_target r) \<and> json_res c = '''')"

lemma head_done_state: "head_done r p (c\<lparr>m_check_stat := s\<rparr>) \<longleftrightarrow> head_done r p c"
  by (simp add: head_done_def head_view_def settled_at_def)

lemma head_done_length: "head_done r p c \<Longrightarrow> m_content_length c = hd_length (request_head r)"
  unfolding head_done_def head_view_def by (metis head.select_convs(2))

lemma head_done_route: "head_done r p c \<Longrightarrow> route_of (m_method c) (apireq c) = request_route r"
  by (simp add: head_done_def request_route_def)

lemma head_done_received:
  assumes "head_done r p c" "0 \<le> hd_length (request_head r)" "hd_length (request_head r) + int READ_BUFFER_SIZE \<le> INT_MAX"
  shows "body_received c \<longleftrightarrow> hd_length (request_head r) \<le> int (length (rq_body r))"
  using body_received_iff [of c "length (rq_body r)"] assms head_done_length [OF assms(1)]
  by (simp add: head_done_def)

lemma head_done_carries:
  assumes "head_done r p c"
    "\<not> wants_body (request_route r) (hd_length (request_head r)) \<or> int (length (rq_body r)) < hd_length (request_head r)"
  shows "carries r p c"
  using assms settled_at_cstr [of c "m_url c"] by (auto simp: head_done_def carries_def Let_def)

lemma head_done_body:
  assumes c: "head_done r p c" and "NUL \<notin> set (rq_body r)" "0 \<le> hd_length (request_head r)"
    "hd_length (request_head r) \<le> int (length (rq_body r))"
  shows "carries r p (end_body p c)"
proof -
  have p: "m_checked_index c = p" "p + length (rq_body r) < READ_BUFFER_SIZE" "holds (m_read_buf c) p (rq_body r)"
    using c by (auto simp: head_done_def)
  note n = head_done_length [OF c]
  have "cstr (m_read_buf (end_body p c)) p = take (nat (hd_length (request_head r))) (rq_body r)"
    using end_body_text [OF p(3) assms(2) _ _ p(2)] assms(3,4) by (simp add: n)
  moreover have "map_option (cstr (m_read_buf (end_body p c))) (m_url c) = Some (rq_target r)"
    using settled_at_cstr [OF settled_at_end_body [of c "m_url c" "Some (rq_target r)"]] c assms(3)
    by (simp add: n p(1) head_done_def)
  moreover have "head_view (end_body p c) = request_head r"
    using head_view_end_body [of c "hd_host (head_view c)"] c assms(3) by (auto simp: n head_done_def)
  moreover have "json_res (end_body p c) = json_res c" by (simp add: end_body_def)
  ultimately show ?thesis
    using c by (simp add: carries_def head_done_def)
qed

text \<open>The connection at the empty line, whatever the route.\<close>

lemma head_done_blank:
  assumes c: "m_start_line c = m_checked_index c" "m_read_index c = m_checked_index c + 2 + length (rq_body r)"
    "m_read_index c < READ_BUFFER_SIZE" "holds (m_read_buf c) (m_checked_index c) (crlf @ rq_body r)" "json_res c = ''''"
    "m_method c = request_method r" "apireq c = route_marker (rq_target r)" "head_view c = request_head r"
    "settled_at c (m_url c) (Some (rq_target r))" "settled_at c (m_host c) h"
  shows "head_done r (m_checked_index c + 2) (end_line 0 c)"
proof -
  let ?c = "end_line 0 c"
  have ps: "passed 2 c ?c"
    using line_step(1) [of c "[]"] c by (simp add: text_ok_def numeral_2_eq_2)
  have h: "settled_at ?c (m_host c) h" "settled_at ?c (m_url c) (Some (rq_target r))"
    using settled_at_passed [OF _ ps] c by auto
  have "head_view ?c = request_head r" "m_host ?c = m_host c" "m_url ?c = m_url c"
    using c(8) settled_at_cstr [OF c(10)] settled_at_cstr [OF h(1)]
    by (simp_all add: head_view_def end_line_def Let_def)
  moreover have "holds (m_read_buf ?c) (m_checked_index c + 2) (rq_body r)"
    using passed_holds [OF ps, of "m_checked_index c + 2" "rq_body r"] ps c(4) by (simp add: passed_def)
  moreover have "settled_at ?c (m_host c) (hd_host (head_view ?c))"
    using h(1) settled_at_cstr [OF h(1)] \<open>m_host ?c = m_host c\<close> by (simp add: head_view_def)
  ultimately show ?thesis
    using ps h c by (simp add: head_done_def passed_def)
qed

section \<open>The refinement\<close>

text \<open>
  C5: The request parser refines its specification on strings. For every well-formed request (any method
  word, origin-form target, header lines, body; fewer bytes than the buffer) with a sane Content-Length,
  the buffer machine started on its wire form does what the specification does with the request: the
  handler of the route found in the table, 404 where there is none, 400 where the body is shorter than
  announced. The handler finds the method, target, connection flag, length, host and bearer token that
  the header lines spell, and as body exactly the announced number of bytes.
\<close>

theorem request_served:
  assumes "request_ok r" "0 \<le> hd_length (request_head r)"
    "hd_length (request_head r) + int READ_BUFFER_SIZE \<le> INT_MAX"
  shows "\<exists>c p. carries r p c \<and> m_sockfd c = m_sockfd c0 \<and>
    run_state (process_read E (received (request_text r) (init c0))) w = run_state (serve_request E r p c) w"
proof -
  obtain c h where c: "process_read_loop E LINE_OK (received (request_text r) (init c0)) w = process_read_loop E LINE_OK c w"
    "m_start_line c = m_checked_index c" "m_check_stat c = CHECK_STATE_HEADER" "m_sockfd c = m_sockfd c0"
    "m_read_index c = m_checked_index c + 2 + length (rq_body r)" "m_read_index c < READ_BUFFER_SIZE"
    "holds (m_read_buf c) (m_checked_index c) (crlf @ rq_body r)" "json_res c = ''''"
    "m_method c = request_method r" "apireq c = route_marker (rq_target r)" "head_view c = request_head r"
    "settled_at c (m_url c) (Some (rq_target r))" "settled_at c (m_host c) h"
    using head_read [OF assms(1), of E c0 w] by blast
  let ?x = "request_route r" and ?n = "hd_length (request_head r)"
  let ?p = "m_checked_index c + 2" and ?c = "end_line 0 c"
  let ?d = "?c\<lparr>m_check_stat := CHECK_STATE_CONTENT\<rparr>"
  have hc: "head_done r ?p ?c" by (rule head_done_blank [OF c(2,5-13)])
  then have hd: "head_done r ?p ?d" by (simp add: head_done_state)
  have fd: "m_sockfd ?c = m_sockfd c0" "m_sockfd (end_body ?p ?d) = m_sockfd c0"
    using c(4) by (simp_all add: end_line_def Let_def end_body_def)
  have "m_content_length c = ?n" using head_done_length [OF hc] by (simp add: end_line_def Let_def)
  then have run: "run_state (process_read E (received (request_text r) (init c0))) w =
    (if at_head ?x then run_state (handler E ?x ?p ?c) w
     else if wants_body ?x ?n then run_state (parse_content E ?p ?d) w else ((Inr NO_RESOURCE, ?c), w))"
    using loop_head_end [of c E w ?p] c
    by (simp add: process_read_def request_route_def Let_def end_line_def del: route_of.simps)
  show ?thesis
  proof (cases "wants_body ?x ?n")
    case False
    with head_done_carries [OF hc] run fd show ?thesis
      by (intro exI [of _ ?c] exI [of _ ?p]) (auto simp: serve_request_def Let_def reply_def)
  next
    case True
    then have nh: "\<not> at_head ?x" by (simp add: wants_body_def)
    note pc = parse_content_route [of ?d E ?p, unfolded head_done_route [OF hd], OF nh]
      head_done_received [OF hd assms(2,3)]
    show ?thesis
    proof (cases "?n \<le> int (length (rq_body r))")
      case False
      with True nh pc run fd head_done_carries [OF hd] show ?thesis
        by (intro exI [of _ ?d] exI [of _ ?p]) (simp add: serve_request_def Let_def)
    next
      case fits: True
      have "carries r ?p (end_body ?p ?d)"
        using head_done_body [OF hd _ assms(2) fits] assms(1) by (simp add: request_ok_def)
      with True fits nh pc run fd show ?thesis
        by (intro exI [of _ "end_body ?p ?d"] exI [of _ ?p]) (simp add: serve_request_def Let_def)
    qed
  qed
qed

definition login_request :: request where
  "login_request = \<lparr>rq_method = ''post'', rq_target = ''/api/login'',
     rq_fields = [''Host: a'', ''content-length: 2'', ''Authorization: Bearer tok'', ''Connection: close''],
     rq_body = ''{}x''\<rparr>"

theorem request_served_witness:
  "request_ok login_request \<and>
   (\<exists>c p. token c = ''tok'' \<and> \<not> m_linger c \<and> cstr (m_read_buf c) p = ''{}'' \<and>
     run_state (process_read ref_ext (received (request_text login_request) (init new_conn))) ref_world =
     run_state (handle_login ref_ext p c) ref_world)"
proof -
  have ok: "request_ok login_request"
    by (simp add: request_ok_def login_request_def text_ok_def line_bytes_def no_blank_def request_text_def
        request_line_def crlf_def READ_BUFFER_SIZE_def)
  have h: "request_head login_request = \<lparr>hd_linger = False, hd_length = 2, hd_host = Some ''a'', hd_token = ''tok''\<rparr>"
    by code_simp
  have x: "request_route login_request = Login" by code_simp
  have n: "0 \<le> hd_length (request_head login_request)"
    "hd_length (request_head login_request) + int READ_BUFFER_SIZE \<le> INT_MAX"
    by (simp_all add: h READ_BUFFER_SIZE_def INT_MAX_def)
  obtain c p where c: "carries login_request p c"
    "run_state (process_read ref_ext (received (request_text login_request) (init new_conn))) ref_world =
     run_state (serve_request ref_ext login_request p c) ref_world"
    using request_served [OF ok n, of new_conn ref_ext ref_world] by blast
  from c(1) have "token c = ''tok'' \<and> \<not> m_linger c \<and> cstr (m_read_buf c) p = ''{}''"
    by (simp add: carries_def h x wants_body_def at_head_def head_view_def) (simp add: login_request_def)
  moreover have "serve_request ref_ext login_request p c = handle_login ref_ext p c"
    by (simp add: serve_request_def h x wants_body_def at_head_def) (simp add: login_request_def)
  ultimately show ?thesis using ok c(2) by metis
qed

end
