(* ===== verification/Redis_Pool.thy ===== *)
theory Redis_Pool
  imports Redis_Client "HOL-Library.Multiset"
begin

text \<open>
  The pool of \<^verbatim>\<open>src/src/cache/redis_client.cpp\<close> under concurrency. The commands of
  \<^verbatim>\<open>Redis_Client\<close> are taken apart at their critical sections and external calls: a thread leases a
  context, waits for the reply, gives the context back or frees it, opens a replacement, or switches the
  client off. Threads interleave freely between these points.
\<close>

section \<open>Critical sections\<close>

text \<open>The locked part of \<^verbatim>\<open>get_connection\<close>, on entry and after each wake-up.\<close>

datatype lease = No_context | Must_wait | Leased redis_context

definition lease_connection :: "redis_client \<Rightarrow> lease \<times> redis_client" where
  "lease_connection r =
     (if \<not> rc_available r then (No_context, r)
      else case rc_conn_pool r of
             [] \<Rightarrow> (Must_wait, r)
           | ctx # rest \<Rightarrow> (Leased ctx, r\<lparr>rc_conn_pool := rest\<rparr>))"

definition give_back :: "redis_context \<Rightarrow> redis_client \<Rightarrow> redis_client" where
  "give_back ctx r =
     (if \<not> rc_available r then r\<lparr>rc_freed := rc_freed r @ [ctx]\<rparr>
      else r\<lparr>rc_conn_pool := rc_conn_pool r @ [ctx]\<rparr>)"

definition switch_off :: "redis_client \<Rightarrow> redis_client" where
  "switch_off r = clear_pool (r\<lparr>rc_available := False\<rparr>)"

text \<open>The actions of the sequential model are these sections, run without interruption.\<close>

lemma redis_get_connection_section:
  "run_state redis_get_connection w =
     (case lease_connection (redis w) of (l, r) \<Rightarrow>
        (case l of Leased ctx \<Rightarrow> Some ctx | _ \<Rightarrow> None, w\<lparr>redis := r\<rparr>))"
  by (simp add: redis_get_connection_def lease_connection_def split: list.splits)

lemma redis_release_connection_section:
  "run_state (redis_release_connection ctx) w = ((), w\<lparr>redis := give_back ctx (redis w)\<rparr>)"
  by (simp add: redis_release_connection_def give_back_def)

lemma discard_connection_section:
  "run_state (discard_connection E ctx) w =
     (let w1 = w\<lparr>redis := (redis w)\<lparr>rc_freed := rc_freed (redis w) @ [ctx]\<rparr>\<rparr>;
          (replacement, w2) = run_state (create_connection E) w1
      in ((), w2\<lparr>redis := (case replacement of Some c \<Rightarrow> give_back c (redis w2) | None \<Rightarrow> switch_off (redis w2))\<rparr>))"
  by (simp add: discard_connection_def Let_def split_def switch_off_def redis_release_connection_section
      split: option.splits)

section \<open>Threads\<close>

datatype redis_pc =
    R_idle | R_wait
  | R_hold redis_context | R_release redis_context | R_discard redis_context
  | R_open | R_off

fun held_by :: "redis_pc \<Rightarrow> redis_context list" where
  "held_by (R_hold c) = [c]"
| "held_by (R_release c) = [c]"
| "held_by (R_discard c) = [c]"
| "held_by _ = []"

text \<open>A thread that has taken a context out of the pool and not yet returned, replaced or given up on it.\<close>

fun in_transit :: "redis_pc \<Rightarrow> bool" where
  "in_transit R_idle = False"
| "in_transit R_wait = False"
| "in_transit _ = True"

fun after_lease :: "lease \<Rightarrow> redis_pc" where
  "after_lease No_context = R_idle"
| "after_lease Must_wait = R_wait"
| "after_lease (Leased ctx) = R_hold ctx"

text \<open>\<open>rp_opened\<close> is the history of the contexts that \<^verbatim>\<open>redisConnect\<close> returned.\<close>

record redis_pool =
  rp_client :: redis_client
  rp_threads :: "redis_pc list"
  rp_opened :: "redis_context list"

definition set_pc :: "nat \<Rightarrow> redis_pc \<Rightarrow> redis_pool \<Rightarrow> redis_pool" where
  "set_pc i q s = s\<lparr>rp_threads := (rp_threads s)[i := q]\<rparr>"

text \<open>
  One step of one thread. \<^verbatim>\<open>redisConnect\<close> returns a context that was not returned before (contexts are
  told apart by the call that made them); \<^verbatim>\<open>create_connection\<close> frees it when the handshake fails. The last
  step is the destructor.
\<close>

inductive redis_step :: "redis_pool \<Rightarrow> redis_pool \<Rightarrow> bool" where
  rs_lease: "i < length (rp_threads s) \<Longrightarrow> rp_threads s ! i = R_idle \<or> rp_threads s ! i = R_wait \<Longrightarrow>
    lease_connection (rp_client s) = (l, r) \<Longrightarrow>
    redis_step s (set_pc i (after_lease l) (s\<lparr>rp_client := r\<rparr>))"
| rs_reply: "i < length (rp_threads s) \<Longrightarrow> rp_threads s ! i = R_hold ctx \<Longrightarrow>
    redis_step s (set_pc i (R_release ctx) s)"
| rs_no_reply: "i < length (rp_threads s) \<Longrightarrow> rp_threads s ! i = R_hold ctx \<Longrightarrow>
    redis_step s (set_pc i (R_discard ctx) s)"
| rs_release: "i < length (rp_threads s) \<Longrightarrow> rp_threads s ! i = R_release ctx \<Longrightarrow>
    redis_step s (set_pc i R_idle (s\<lparr>rp_client := give_back ctx (rp_client s)\<rparr>))"
| rs_free: "i < length (rp_threads s) \<Longrightarrow> rp_threads s ! i = R_discard ctx \<Longrightarrow>
    redis_step s (set_pc i R_open (s\<lparr>rp_client := (rp_client s)\<lparr>rc_freed := rc_freed (rp_client s) @ [ctx]\<rparr>\<rparr>))"
| rs_opened: "i < length (rp_threads s) \<Longrightarrow> rp_threads s ! i = R_open \<Longrightarrow> ctx \<notin> set (rp_opened s) \<Longrightarrow>
    redis_step s (set_pc i (R_release ctx) (s\<lparr>rp_opened := rp_opened s @ [ctx]\<rparr>))"
| rs_open_failed: "i < length (rp_threads s) \<Longrightarrow> rp_threads s ! i = R_open \<Longrightarrow>
    length cs \<le> 1 \<Longrightarrow> set cs \<inter> set (rp_opened s) = {} \<Longrightarrow>
    redis_step s (set_pc i R_off (s\<lparr>rp_opened := rp_opened s @ cs,
      rp_client := (rp_client s)\<lparr>rc_freed := rc_freed (rp_client s) @ cs\<rparr>\<rparr>))"
| rs_off: "i < length (rp_threads s) \<Longrightarrow> rp_threads s ! i = R_off \<Longrightarrow>
    redis_step s (set_pc i R_idle (s\<lparr>rp_client := switch_off (rp_client s)\<rparr>))"
| rs_shutdown: "redis_step s (s\<lparr>rp_client := (clear_pool (rp_client s))\<lparr>rc_available := False\<rparr>\<rparr>)"

text \<open>The pool as \<^verbatim>\<open>init\<close> leaves it, before the first request: full, or empty and switched off.\<close>

definition redis_start :: "redis_pool \<Rightarrow> bool" where
  "redis_start s = (let r = rp_client s in
     (\<forall>q \<in> set (rp_threads s). q = R_idle) \<and> distinct (rp_opened s) \<and>
     rp_opened s = rc_conn_pool r @ rc_freed r \<and>
     (if rc_available r then int (length (rc_conn_pool r)) = DEFAULT_REDIS_POOL_SIZE else rc_conn_pool r = []))"

section \<open>Invariant\<close>

definition held :: "redis_pool \<Rightarrow> redis_context list" where
  "held s = concat (map held_by (rp_threads s))"

definition redis_inv :: "redis_pool \<Rightarrow> bool" where
  "redis_inv s = (let r = rp_client s in
     distinct (rp_opened s) \<and> mset (rp_opened s) = mset (rc_conn_pool r) + mset (held s) + mset (rc_freed r) \<and>
     (if rc_available r
      then int (length (rc_conn_pool r) + how_many in_transit (rp_threads s)) = DEFAULT_REDIS_POOL_SIZE
      else rc_conn_pool r = []))"

lemma mset_concat_update:
  "i < length xs \<Longrightarrow>
   mset (concat (map f (xs[i := y]))) + mset (f (xs ! i)) = mset (concat (map f xs)) + mset (f y)"
proof (induction xs arbitrary: i)
  case Nil
  then show ?case by simp
next
  case (Cons x xs)
  show ?case
  proof (cases i)
    case (Suc j)
    with Cons.IH [of j] Cons.prems show ?thesis by (simp add: union_ac)
  qed (simp add: union_ac)
qed

lemma held_set_pc:
  assumes "i < length (rp_threads s)"
  shows "mset (held (set_pc i q s)) + mset (held_by (rp_threads s ! i)) = mset (held s) + mset (held_by q)"
  using mset_concat_update [OF assms, of held_by q] by (simp add: held_def set_pc_def)

text \<open>What a step of thread \<open>i\<close> from \<open>p\<close> to \<open>q\<close> has to balance.\<close>

lemma redis_inv_step:
  assumes inv: "redis_inv s" and i: "i < length (rp_threads s)" "rp_threads s ! i = p"
    and t: "rp_threads t = (rp_threads s)[i := q]"
    and opened: "distinct (rp_opened t)"
    and balance: "mset (rp_opened t) + mset (rc_conn_pool (rp_client s)) + mset (rc_freed (rp_client s)) + mset (held_by p) =
      mset (rp_opened s) + mset (rc_conn_pool (rp_client t)) + mset (rc_freed (rp_client t)) + mset (held_by q)"
    and off: "\<not> rc_available (rp_client t) \<Longrightarrow> rc_conn_pool (rp_client t) = []"
    and on: "rc_available (rp_client t) \<Longrightarrow> rc_available (rp_client s) \<and>
      length (rc_conn_pool (rp_client t)) + (if in_transit q then 1 else 0) =
      length (rc_conn_pool (rp_client s)) + (if in_transit p then 1 else 0)"
  shows "redis_inv t"
proof -
  have h: "mset (held t) + mset (held_by p) = mset (held s) + mset (held_by q)"
    using mset_concat_update [OF i(1), of held_by q] i(2) t by (simp add: held_def)
  have m: "mset (rp_opened s) = mset (rc_conn_pool (rp_client s)) + mset (held s) + mset (rc_freed (rp_client s))"
    using inv by (simp add: redis_inv_def Let_def)
  have "mset (rp_opened t) + mset (rc_conn_pool (rp_client s)) + mset (rc_freed (rp_client s)) + mset (held_by p) =
    mset (rc_conn_pool (rp_client t)) + mset (held t) + mset (rc_freed (rp_client t)) +
      mset (rc_conn_pool (rp_client s)) + mset (rc_freed (rp_client s)) + mset (held_by p)"
  proof -
    have "mset (rp_opened t) + mset (rc_conn_pool (rp_client s)) + mset (rc_freed (rp_client s)) + mset (held_by p) =
      (mset (held s) + mset (held_by q)) + mset (rc_conn_pool (rp_client s)) + mset (rc_freed (rp_client s)) +
        mset (rc_conn_pool (rp_client t)) + mset (rc_freed (rp_client t))"
      unfolding balance m by (simp add: union_ac)
    also have "\<dots> = (mset (held t) + mset (held_by p)) + mset (rc_conn_pool (rp_client s)) + mset (rc_freed (rp_client s)) +
        mset (rc_conn_pool (rp_client t)) + mset (rc_freed (rp_client t))"
      by (simp only: h)
    finally show ?thesis by (simp add: union_ac)
  qed
  then have "mset (rp_opened t) = mset (rc_conn_pool (rp_client t)) + mset (held t) + mset (rc_freed (rp_client t))"
    by (simp add: union_assoc [symmetric])
  moreover have "int (length (rc_conn_pool (rp_client t)) + how_many in_transit (rp_threads t)) = DEFAULT_REDIS_POOL_SIZE"
    if "rc_available (rp_client t)"
    using inv on [OF that] how_many_update [OF i(1), of in_transit q] i(2) t
    by (auto simp: redis_inv_def Let_def split: if_splits)
  ultimately show ?thesis
    using opened off by (simp add: redis_inv_def Let_def)
qed

lemmas section_defs = lease_connection_def give_back_def switch_off_def clear_pool_def set_pc_def

lemma redis_step_inv:
  assumes inv: "redis_inv s" and step: "redis_step s t"
  shows "redis_inv t"
proof -
  have d: "distinct (rp_opened s)" and off: "\<not> rc_available (rp_client s) \<Longrightarrow> rc_conn_pool (rp_client s) = []"
    using inv by (auto simp: redis_inv_def Let_def)
  note balanced = redis_inv_step [OF inv]
  from step show ?thesis
  proof (cases rule: redis_step.cases)
    case (rs_lease i l r)
    show ?thesis
      by (rule balanced [OF rs_lease(2) refl, of _ "after_lease l"])
         (use rs_lease d off in \<open>auto simp: section_defs split: if_splits list.splits\<close>)
  next
    case (rs_reply i ctx)
    show ?thesis
      by (rule balanced [OF rs_reply(2,3), of _ "R_release ctx"]) (use rs_reply d off in \<open>auto simp: section_defs\<close>)
  next
    case (rs_no_reply i ctx)
    show ?thesis
      by (rule balanced [OF rs_no_reply(2,3), of _ "R_discard ctx"]) (use rs_no_reply d off in \<open>auto simp: section_defs\<close>)
  next
    case (rs_release i ctx)
    show ?thesis
      by (rule balanced [OF rs_release(2,3), of _ R_idle]) (use rs_release d off in \<open>auto simp: section_defs split: if_splits\<close>)
  next
    case (rs_free i ctx)
    show ?thesis
      by (rule balanced [OF rs_free(2,3), of _ R_open]) (use rs_free d off in \<open>auto simp: section_defs\<close>)
  next
    case (rs_opened i ctx)
    show ?thesis
      by (rule balanced [OF rs_opened(2,3), of _ "R_release ctx"]) (use rs_opened d off in \<open>auto simp: section_defs\<close>)
  next
    case (rs_open_failed i cs)
    have "distinct cs" using rs_open_failed(4) by (cases cs; cases "tl cs") auto
    then show ?thesis
      by (intro balanced [OF rs_open_failed(2,3), of _ R_off]) (use rs_open_failed d off in \<open>auto simp: section_defs\<close>)
  next
    case (rs_off i)
    show ?thesis
      by (rule balanced [OF rs_off(2,3), of _ R_idle]) (use rs_off d off in \<open>auto simp: section_defs\<close>)
  next
    case rs_shutdown
    with inv show ?thesis by (auto simp: redis_inv_def Let_def clear_pool_def held_def union_ac)
  qed
qed

lemma redis_start_inv: "redis_start s \<Longrightarrow> redis_inv s"
proof -
  assume s: "redis_start s"
  then have idle: "\<forall>q \<in> set (rp_threads s). q = R_idle" by (simp add: redis_start_def Let_def)
  then have "held s = []" "how_many in_transit (rp_threads s) = 0"
    by (auto simp: held_def how_many_def filter_empty_conv)
  with s show ?thesis by (auto simp: redis_start_def redis_inv_def Let_def)
qed

interpretation rp: invariant_system redis_start redis_step redis_inv
  by unfold_locales (rule redis_start_inv, assumption, rule redis_step_inv)

text \<open>
  C17: The Redis contexts. Under every interleaving of leases, replies, failures, replacements, switch-off
  and shutdown, the contexts ever opened are, each exactly once, in the pool, with one thread, or freed:
  no context is used by two threads, none is used or pooled after it was freed, none is freed twice and
  none is lost.
\<close>

theorem redis_contexts_exclusive:
  assumes "reachable redis_start redis_step s"
  shows "distinct (rc_conn_pool (rp_client s) @ held s @ rc_freed (rp_client s)) \<and>
    set (rc_conn_pool (rp_client s) @ held s @ rc_freed (rp_client s)) = set (rp_opened s)"
proof -
  let ?all = "rc_conn_pool (rp_client s) @ held s @ rc_freed (rp_client s)"
  have "distinct (rp_opened s)" "mset (rp_opened s) = mset ?all"
    using rp.reachable_inv [OF assms] by (simp_all add: redis_inv_def Let_def union_assoc)
  then show ?thesis by (metis mset_eq_imp_distinct_iff mset_eq_setD)
qed

text \<open>A small run: ten contexts, two threads, and one context whose command failed.\<close>

definition ten_contexts :: redis_pool where
  "ten_contexts = \<lparr>rp_client = \<lparr>rc_host = ''h'', rc_port = 6379, rc_password = '''', rc_use_tls = False,
     rc_available = True, rc_max_conn = 10, rc_conn_pool = [0, 1, 2, 3, 4, 5, 6, 7, 8, 9], rc_freed = []\<rparr>,
     rp_threads = [R_idle, R_idle], rp_opened = [0, 1, 2, 3, 4, 5, 6, 7, 8, 9]\<rparr>"

definition one_discarded :: redis_pool where
  "one_discarded = ten_contexts\<lparr>rp_client := (rp_client ten_contexts)\<lparr>rc_conn_pool := [1, 2, 3, 4, 5, 6, 7, 8, 9],
     rc_freed := [0]\<rparr>, rp_threads := [R_open, R_idle]\<rparr>"

lemma one_discarded_reachable: "reachable redis_start redis_step one_discarded"
proof -
  define a where "a = set_pc 0 (R_hold 0) (ten_contexts\<lparr>rp_client := (rp_client ten_contexts)\<lparr>rc_conn_pool := [1, 2, 3, 4, 5, 6, 7, 8, 9]\<rparr>\<rparr>)"
  define b where "b = set_pc 0 (R_discard 0) a"
  have "reachable redis_start redis_step ten_contexts"
    by (rule reach_start) (simp add: redis_start_def ten_contexts_def DEFAULT_REDIS_POOL_SIZE_def)
  moreover have "redis_step ten_contexts a"
    using rs_lease [of 0 ten_contexts "Leased 0" "(rp_client ten_contexts)\<lparr>rc_conn_pool := [1, 2, 3, 4, 5, 6, 7, 8, 9]\<rparr>"]
    by (simp add: a_def ten_contexts_def lease_connection_def)
  ultimately have "reachable redis_start redis_step a" by (rule reach_step)
  moreover have "redis_step a b"
    unfolding b_def by (rule rs_no_reply) (simp_all add: a_def set_pc_def ten_contexts_def)
  ultimately have "reachable redis_start redis_step b" by (rule reach_step)
  moreover have "redis_step b one_discarded"
    using rs_free [of 0 b 0] by (simp add: b_def a_def one_discarded_def set_pc_def ten_contexts_def)
  ultimately show ?thesis by (rule reach_step)
qed

theorem redis_contexts_exclusive_witness:
  "distinct (rc_conn_pool (rp_client one_discarded) @ held one_discarded @ rc_freed (rp_client one_discarded))"
  using redis_contexts_exclusive [OF one_discarded_reachable] by blast

text \<open>A thread that is not in transit leaves a context for itself, as long as there are at most ten.\<close>

lemma idle_finds_context:
  assumes "redis_inv s" "length (rp_threads s) \<le> 10" "i < length (rp_threads s)" "\<not> in_transit (rp_threads s ! i)"
    "rc_available (rp_client s)"
  shows "rc_conn_pool (rp_client s) \<noteq> []"
proof -
  have "how_many in_transit (rp_threads s) + how_many (\<lambda>q. \<not> in_transit q) (rp_threads s) = length (rp_threads s)"
    unfolding how_many_def by (rule sum_length_filter_compl)
  moreover have "0 < how_many (\<lambda>q. \<not> in_transit q) (rp_threads s)"
    using how_many_pos [OF assms(3), of "\<lambda>q. \<not> in_transit q"] assms(4) by simp
  ultimately show ?thesis
    using assms(1,2,5) by (auto simp: redis_inv_def Let_def DEFAULT_REDIS_POOL_SIZE_def)
qed

lemma redis_step_threads: "redis_step s t \<Longrightarrow> length (rp_threads t) = length (rp_threads s)"
  by (induction rule: redis_step.induct) (simp_all add: set_pc_def)

lemma nobody_waits:
  "reachable redis_start redis_step s \<Longrightarrow> length (rp_threads s) \<le> 10 \<Longrightarrow> R_wait \<notin> set (rp_threads s)"
proof (induction rule: reachable.induct)
  case (reach_start s)
  then show ?case by (auto simp: redis_start_def Let_def)
next
  case (reach_step s t)
  have n: "length (rp_threads s) \<le> 10" "R_wait \<notin> set (rp_threads s)"
    using reach_step redis_step_threads by auto
  from reach_step(2) show ?case
  proof (cases rule: redis_step.cases)
    case (rs_lease i l r)
    have "\<not> in_transit (rp_threads s ! i)" using rs_lease by auto
    from idle_finds_context [OF rp.reachable_inv [OF reach_step(1)] n(1) rs_lease(2) this]
    have "l \<noteq> Must_wait" using rs_lease(4) by (auto simp: lease_connection_def split: if_splits list.splits)
    then have "after_lease l \<noteq> R_wait" by (cases l) auto
    with n rs_lease(1) show ?thesis by (auto simp: set_pc_def dest!: set_update_subset_insert [THEN subsetD])
  qed (use n in \<open>auto simp: set_pc_def dest!: set_update_subset_insert [THEN subsetD]\<close>)
qed

text \<open>
  C18: A command never waits for a context. The server has ten workers and the pool ten contexts; with at
  most ten threads a thread that calls \<^verbatim>\<open>get_connection\<close> while the client is available always finds a
  context in the pool, even when the others hold, discard or replace theirs, and no thread ever blocks
  in \<^verbatim>\<open>cv_.wait\<close>.
\<close>

theorem redis_never_waits:
  assumes "reachable redis_start redis_step s" "length (rp_threads s) \<le> 10"
  shows "R_wait \<notin> set (rp_threads s) \<and>
    (\<forall>i < length (rp_threads s). rp_threads s ! i = R_idle \<longrightarrow> rc_available (rp_client s) \<longrightarrow>
      (\<exists>ctx r. lease_connection (rp_client s) = (Leased ctx, r)))"
proof -
  have "\<exists>ctx r. lease_connection (rp_client s) = (Leased ctx, r)"
    if "i < length (rp_threads s)" "rp_threads s ! i = R_idle" "rc_available (rp_client s)" for i
    using idle_finds_context [OF rp.reachable_inv [OF assms(1)] assms(2) that(1)] that
    by (auto simp: lease_connection_def neq_Nil_conv)
  with nobody_waits [OF assms] show ?thesis by blast
qed

theorem redis_never_waits_witness:
  "R_wait \<notin> set (rp_threads one_discarded) \<and> (\<exists>ctx r. lease_connection (rp_client one_discarded) = (Leased ctx, r))"
proof -
  have "length (rp_threads one_discarded) \<le> 10" by (simp add: one_discarded_def)
  from redis_never_waits [OF one_discarded_reachable this] show ?thesis
    by (auto simp: one_discarded_def ten_contexts_def dest!: spec [of _ 1])
qed

end
