(* ===== verification/Interleaving.thy ===== *)
theory Interleaving
  imports Reference_Stores
begin

text \<open>
  The resource service of \<^verbatim>\<open>src/src/service/resource_service.cpp\<close> when several workers run it at once.
  Each operation is taken apart at its calls to the DAO, the cache, the storage service and the shared
  error message \<^verbatim>\<open>ResourceDAO::msg\<close>; a program is what is left of an operation, and the workers
  interleave between the calls. Run without interruption the programs are the operations of
  \<^verbatim>\<open>Resource_Service\<close>.
\<close>

section \<open>Programs\<close>

datatype ('w, 'a) prog = Finished 'a | Call "'w \<Rightarrow> ('w, 'a) prog \<times> 'w"

primrec run_prog :: "('w, 'a) prog \<Rightarrow> 'w \<Rightarrow> 'a \<times> 'w" where
  "run_prog (Finished a) w = (a, w)"
| "run_prog (Call f) w = (let (g, w') = map_prod run_prog id (f w) in g w')"

text \<open>One call and what follows it.\<close>

definition call :: "('w, 'x) state \<Rightarrow> ('x \<Rightarrow> ('w, 'a) prog) \<Rightarrow> ('w, 'a) prog" where
  "call m k = Call (\<lambda>w. map_prod k id (run_state m w))"

lemma run_call [simp]: "run_prog (call m k) w = (case run_state m w of (x, w') \<Rightarrow> run_prog (k x) w')"
  by (simp add: call_def split_def)

definition last_call :: "('w, 'a) state \<Rightarrow> ('w, 'a) prog" where
  "last_call m = call m Finished"

lemma run_last_call [simp]: "run_prog (last_call m) w = run_state m w"
  by (simp add: last_call_def)

type_synonym ('db, 'rd, 'ob) request_prog = "(('db, 'rd, 'ob) world, json) prog"

section \<open>The operations\<close>

definition create_prog :: "('db, 'rd, 'ob) externals \<Rightarrow> ResourceInfo \<Rightarrow> ('db, 'rd, 'ob) request_prog" where
  "create_prog E info =
     call (dao_create_resource E \<lparr>res_id = 0, res_user_id = ri_user_id info, res_title = ri_title info,
             res_content = ri_content info, res_is_file = ri_is_file info\<rparr>) (\<lambda>ok.
     if \<not> ok then last_call dao_error
     else call (cache_invalidate_resources E (ri_user_id info)) (\<lambda>_. Finished (status_json ''created'')))"

text \<open>The second halves of the two reads, after the cache missed and the DAO returned.\<close>

definition list_loaded :: "('db, 'rd, 'ob) externals \<Rightarrow> int \<Rightarrow> Resource list \<Rightarrow> ('db, 'rd, 'ob) request_prog" where
  "list_loaded E user_id vec =
     call State_Monad.get (\<lambda>w.
     if resource_msg w \<noteq> [] then last_call dao_error
     else (case json_dump E (resource_list vec) of
         Inl e \<Rightarrow> last_call (service_error ''loading resources'' e)
       | Inr s \<Rightarrow> call (cache_set_resources E user_id s) (\<lambda>_. Finished (resource_list vec))))"

definition list_prog :: "('db, 'rd, 'ob) externals \<Rightarrow> int \<Rightarrow> ('db, 'rd, 'ob) request_prog" where
  "list_prog E user_id =
     call (cache_get_resources E user_id) (\<lambda>raw.
     call (parse_cached_json E raw) (\<lambda>cached.
     case cached of
       Some j \<Rightarrow> call (log DEBUG (''resource list cache hit user_id='' @ to_string user_id)) (\<lambda>_. Finished j)
     | None \<Rightarrow> call (dao_get_resources E user_id) (list_loaded E user_id)))"

definition get_loaded :: "('db, 'rd, 'ob) externals \<Rightarrow> int \<Rightarrow> int \<Rightarrow> Resource option \<Rightarrow> ('db, 'rd, 'ob) request_prog" where
  "get_loaded E user_id rid resource =
     (case resource of
        None \<Rightarrow> last_call dao_error
      | Some r \<Rightarrow>
          (case json_dump E (resource_item r) of
             Inl e \<Rightarrow> last_call (service_error ''loading a resource'' e)
           | Inr s \<Rightarrow> call (cache_set_resource E user_id rid s) (\<lambda>_. Finished (resource_item r))))"

definition get_prog :: "('db, 'rd, 'ob) externals \<Rightarrow> int \<Rightarrow> int \<Rightarrow> ('db, 'rd, 'ob) request_prog" where
  "get_prog E user_id rid =
     call (cache_get_resource E user_id rid) (\<lambda>raw.
     call (parse_cached_json E raw) (\<lambda>cached.
     case cached of
       Some j \<Rightarrow> call (log DEBUG (''resource cache hit user_id='' @ to_string user_id @ '' id='' @ to_string rid))
         (\<lambda>_. Finished j)
     | None \<Rightarrow> call (dao_get_resource E user_id rid) (get_loaded E user_id rid)))"

definition download_prog :: "('db, 'rd, 'ob) externals \<Rightarrow> int \<Rightarrow> int \<Rightarrow> ('db, 'rd, 'ob) request_prog" where
  "download_prog E user_id rid =
     call (dao_get_resource E user_id rid) (\<lambda>resource.
     case resource of
       None \<Rightarrow> last_call dao_error
     | Some r \<Rightarrow>
         if \<not> res_is_file r then Finished (error_json ''resource is not file'')
         else last_call (create_download_url E (res_content r)))"

definition invalidate_both_prog :: "('db, 'rd, 'ob) externals \<Rightarrow> int \<Rightarrow> int \<Rightarrow> json \<Rightarrow> ('db, 'rd, 'ob) request_prog" where
  "invalidate_both_prog E user_id rid j =
     call (cache_invalidate_resource E user_id rid) (\<lambda>_.
     call (cache_invalidate_resources E user_id) (\<lambda>_. Finished j))"

definition update_prog :: "('db, 'rd, 'ob) externals \<Rightarrow> ResourceInfo \<Rightarrow> ('db, 'rd, 'ob) request_prog" where
  "update_prog E info =
     call (dao_update_resource E \<lparr>res_id = ri_id info, res_user_id = ri_user_id info,
             res_title = ri_title info, res_content = ri_content info, res_is_file = False\<rparr>) (\<lambda>ok.
     if \<not> ok then last_call dao_error
     else invalidate_both_prog E (ri_user_id info) (ri_id info) (status_json ''updated''))"

definition delete_row_prog :: "('db, 'rd, 'ob) externals \<Rightarrow> int \<Rightarrow> int \<Rightarrow> ('db, 'rd, 'ob) request_prog" where
  "delete_row_prog E user_id rid =
     call (dao_delete_resource E user_id rid) (\<lambda>ok.
     if \<not> ok then last_call dao_error
     else invalidate_both_prog E user_id rid (status_json ''deleted''))"

definition delete_prog :: "('db, 'rd, 'ob) externals \<Rightarrow> int \<Rightarrow> int \<Rightarrow> ('db, 'rd, 'ob) request_prog" where
  "delete_prog E user_id rid =
     call (dao_get_resource E user_id rid) (\<lambda>resource.
     case resource of
       None \<Rightarrow> last_call dao_error
     | Some r \<Rightarrow>
         if res_is_file r then
           call (delete_file E (res_content r) ''failed to delete file'') (\<lambda>(deleted, error).
           if \<not> deleted then Finished (error_json error) else delete_row_prog E user_id rid)
         else delete_row_prog E user_id rid)"

fun op_prog :: "('db, 'rd, 'ob) externals \<Rightarrow> int \<Rightarrow> resource_op \<Rightarrow> ('db, 'rd, 'ob) request_prog" where
  "op_prog E u (Op_create t x f) = create_prog E
     \<lparr>ri_id = 0, ri_user_id = u, ri_title = t, ri_content = x, ri_is_file = f\<rparr>"
| "op_prog E u Op_list = list_prog E u"
| "op_prog E u (Op_get i) = get_prog E u i"
| "op_prog E u (Op_download i) = download_prog E u i"
| "op_prog E u (Op_update i t x) = update_prog E
     \<lparr>ri_id = i, ri_user_id = u, ri_title = t, ri_content = x, ri_is_file = False\<rparr>"
| "op_prog E u (Op_delete i) = delete_prog E u i"

lemmas prog_defs = create_prog_def list_loaded_def list_prog_def get_loaded_def get_prog_def download_prog_def invalidate_both_prog_def
  update_prog_def delete_row_prog_def delete_prog_def

lemma run_prog_cases [simp]:
  "run_prog (if b then p else q) w = (if b then run_prog p w else run_prog q w)"
  "run_prog (case x of None \<Rightarrow> p | Some y \<Rightarrow> f y) w = (case x of None \<Rightarrow> run_prog p w | Some y \<Rightarrow> run_prog (f y) w)"
  "run_prog (case z of Inl a \<Rightarrow> g a | Inr c \<Rightarrow> h c) w = (case z of Inl a \<Rightarrow> run_prog (g a) w | Inr c \<Rightarrow> run_prog (h c) w)"
  by (simp_all split: option.splits sum.splits)

text \<open>A worker that is not interrupted does what the service does.\<close>

lemma run_delete_row_prog: "run_prog (delete_row_prog E u i) w = run_state (delete_row E u i) w"
  by (simp add: prog_defs delete_row_def split_def)

lemma run_op_prog: "run_prog (op_prog E u p) w = run_state (run_op E u p) w"
proof (cases p)
  case (Op_delete i)
  then show ?thesis
    by (simp add: delete_prog_def delete_resource_def run_delete_row_prog split_def cong: if_cong option.case_cong)
qed (simp_all add: prog_defs create_resource_def get_resources_def get_resource_def get_file_download_url_def
    update_resource_def split_def cong: if_cong option.case_cong sum.case_cong)

section \<open>Interleavings\<close>

text \<open>
  The programs of the workers, the world they share, and the set of rows the table has ever held (from
  the start on). A step is one call of one worker; \<open>il_msg\<close> lets any other thread overwrite the
  unprotected error message at any time.
\<close>

record ('db, 'rd, 'ob) interleaved =
  il_progs :: "('db, 'rd, 'ob) request_prog list"
  il_world :: "('db, 'rd, 'ob) world"
  il_seen :: "Resource set"

inductive il_step :: "('db \<Rightarrow> Resource set) \<Rightarrow> ('db, 'rd, 'ob) interleaved \<Rightarrow> ('db, 'rd, 'ob) interleaved \<Rightarrow> bool"
  for tbl :: "'db \<Rightarrow> Resource set" where
  il_call: "k < length (il_progs s) \<Longrightarrow> il_progs s ! k = Call f \<Longrightarrow> f (il_world s) = (p, w) \<Longrightarrow>
    il_step tbl s (s\<lparr>il_progs := (il_progs s)[k := p], il_world := w, il_seen := il_seen s \<union> tbl (db w)\<rparr>)"
| il_msg: "il_step tbl s (s\<lparr>il_world := (il_world s)\<lparr>resource_msg := m\<rparr>\<rparr>)"

definition il_start :: "('db, 'rd, 'ob) externals \<Rightarrow> ('db \<Rightarrow> Resource set) \<Rightarrow> ('db, 'rd, 'ob) world \<Rightarrow>
    (int \<times> resource_op) list \<Rightarrow> ('db, 'rd, 'ob) interleaved \<Rightarrow> bool" where
  "il_start E tbl w ops s = (s = \<lparr>il_progs = map (\<lambda>(u, p). op_prog E u p) ops, il_world = w, il_seen = tbl (db w)\<rparr>)"

section \<open>What survives an interleaving\<close>

text \<open>Every cached value is the JSON text of rows of its user that the table holds or once held.\<close>

definition once_coherent :: "('db, 'rd, 'ob) externals \<Rightarrow> Resource set \<Rightarrow> (string \<rightharpoonup> string) \<Rightarrow> bool" where
  "once_coherent E H m =
     ((\<forall>u i s. m (resource_key u i) = Some s \<longrightarrow> (\<exists>y \<in> H. owned u i y \<and> json_parse E s = Inr (resource_item y))) \<and>
      (\<forall>u s. m (resources_key u) = Some s \<longrightarrow> (\<exists>ys. set ys \<subseteq> {y \<in> H. res_user_id y = u} \<and>
         json_parse E s = Inr (resource_list ys))))"

lemma once_coherent_mono: "once_coherent E H m \<Longrightarrow> m' \<subseteq>\<^sub>m m \<Longrightarrow> H \<subseteq> H' \<Longrightarrow> once_coherent E H' m'"
proof -
  assume c: "once_coherent E H m" and m: "m' \<subseteq>\<^sub>m m" and H: "H \<subseteq> H'"
  have sub: "set ys \<subseteq> {y \<in> H. res_user_id y = u} \<Longrightarrow> set ys \<subseteq> {y \<in> H'. res_user_id y = u}" for ys u
    using H by auto
  show "once_coherent E H' m'"
    unfolding once_coherent_def
  proof (intro conjI allI impI)
    fix u i s assume "m' (resource_key u i) = Some s"
    with c H show "\<exists>y \<in> H'. owned u i y \<and> json_parse E s = Inr (resource_item y)"
      unfolding once_coherent_def by (meson map_leD [OF m] subsetD)
  next
    fix u s assume "m' (resources_key u) = Some s"
    with c sub show "\<exists>ys. set ys \<subseteq> {y \<in> H'. res_user_id y = u} \<and> json_parse E s = Inr (resource_list ys)"
      unfolding once_coherent_def by (meson map_leD [OF m])
  qed
qed

definition il_inv :: "('db, 'rd, 'ob) externals \<Rightarrow> ('db \<Rightarrow> Resource set) \<Rightarrow> ('db \<Rightarrow> bool) \<Rightarrow>
    ('rd \<Rightarrow> string \<rightharpoonup> string) \<Rightarrow> Resource set \<Rightarrow> ('db, 'rd, 'ob) world \<Rightarrow> bool" where
  "il_inv E tbl ok entries H w = (pool_ready (pg_pool w) \<and> redis_ready (redis w) \<and> ok (db w) \<and> tbl (db w) \<subseteq> H \<and>
     (rc_available (redis w) \<longrightarrow> once_coherent E H (entries (redis_srv w))))"

lemma il_inv_mono: "il_inv E tbl ok entries H w \<Longrightarrow> H \<subseteq> H' \<Longrightarrow> il_inv E tbl ok entries H' w"
  unfolding il_inv_def by (auto intro: once_coherent_mono [OF _ map_le_refl])

lemma il_inv_fields [simp]:
  "il_inv E tbl ok entries H (w\<lparr>log_calls := l\<rparr>) = il_inv E tbl ok entries H w"
  "il_inv E tbl ok entries H (w\<lparr>resource_msg := m\<rparr>) = il_inv E tbl ok entries H w"
  "il_inv E tbl ok entries H (w\<lparr>objects := ob\<rparr>) = il_inv E tbl ok entries H w"
  by (simp_all add: il_inv_def)

lemma il_inv_shrinks:
  "il_inv E tbl ok entries H w \<Longrightarrow> shrinks entries w w' \<Longrightarrow> redis_ready (redis w') \<Longrightarrow>
   il_inv E tbl ok entries H w' \<and> db w' = db w"
  by (auto simp: il_inv_def shrinks_def redis_frame_def intro: once_coherent_mono)

lemma il_inv_dao:
  "il_inv E tbl ok entries H w \<Longrightarrow> dao_frame w w' \<Longrightarrow> ok (db w') \<Longrightarrow>
   il_inv E tbl ok entries (H \<union> tbl (db w')) w'"
  unfolding il_inv_def dao_frame_def by (auto intro: once_coherent_mono [OF _ map_le_refl])

lemma il_inv_stores:
  assumes "il_inv E tbl ok entries H w" "stores entries k v w w'" "redis_ready (redis w')"
    "\<And>m. once_coherent E H m \<Longrightarrow> once_coherent E H (m(k \<mapsto> v))"
  shows "il_inv E tbl ok entries H w' \<and> db w' = db w"
proof -
  have f: "db w' = db w" "pg_pool w' = pg_pool w" using assms(2) by (auto simp: stores_def redis_frame_def)
  have "once_coherent E H (entries (redis_srv w'))" if "rc_available (redis w')"
    using assms(1,2,4) that by (auto simp: stores_def il_inv_def intro: once_coherent_mono [OF _ _ subset_refl])
  with assms(1,3) f show ?thesis by (auto simp: il_inv_def)
qed

text \<open>
  \<open>safe u A p H\<close>: whatever other threads do between its calls, as long as they keep the invariant and
  the rows seen so far only grow beyond \<open>H\<close>, each call of \<open>p\<close> keeps the invariant and the rows of
  everybody but \<open>u\<close>, and the answer satisfies \<open>A\<close> of the rows seen.
\<close>

primrec safe :: "('db, 'rd, 'ob) externals \<Rightarrow> ('db \<Rightarrow> Resource set) \<Rightarrow> ('db \<Rightarrow> bool) \<Rightarrow>
    ('rd \<Rightarrow> string \<rightharpoonup> string) \<Rightarrow> int \<Rightarrow> (Resource set \<Rightarrow> json \<Rightarrow> bool) \<Rightarrow>
    ('db, 'rd, 'ob) request_prog \<Rightarrow> Resource set \<Rightarrow> bool" where
  "safe E tbl ok entries u A (Finished j) = (\<lambda>H. A H j)"
| "safe E tbl ok entries u A (Call f) = (\<lambda>H. \<forall>H' w. H \<subseteq> H' \<longrightarrow> il_inv E tbl ok entries H' w \<longrightarrow>
     (case map_prod (safe E tbl ok entries u A) id (f w) of (g, w') \<Rightarrow>
        il_inv E tbl ok entries (H' \<union> tbl (db w')) w' \<and>
        others u (tbl (db w')) = others u (tbl (db w)) \<and> g (H' \<union> tbl (db w'))))"

definition grows :: "(Resource set \<Rightarrow> json \<Rightarrow> bool) \<Rightarrow> bool" where
  "grows A = (\<forall>H H' j. H \<subseteq> H' \<longrightarrow> A H j \<longrightarrow> A H' j)"

lemma safe_mono: "grows A \<Longrightarrow> safe E tbl ok entries u A p H \<Longrightarrow> H \<subseteq> H' \<Longrightarrow> safe E tbl ok entries u A p H'"
  by (cases p) (auto simp: grows_def)

lemma safe_call:
  assumes "\<And>H' w x w'. H \<subseteq> H' \<Longrightarrow> il_inv E tbl ok entries H' w \<Longrightarrow> run_state m w = (x, w') \<Longrightarrow>
    il_inv E tbl ok entries (H' \<union> tbl (db w')) w' \<and> others u (tbl (db w')) = others u (tbl (db w)) \<and>
    safe E tbl ok entries u A (k x) (H' \<union> tbl (db w'))"
  shows "safe E tbl ok entries u A (call m k) H"
  using assms [OF _ _ prod.collapse [symmetric]] by (simp add: call_def split_def)

text \<open>The same for a call that leaves the table alone.\<close>

lemma safe_call_same:
  assumes "\<And>H' w x w'. H \<subseteq> H' \<Longrightarrow> il_inv E tbl ok entries H' w \<Longrightarrow> run_state m w = (x, w') \<Longrightarrow>
    il_inv E tbl ok entries H' w' \<and> tbl (db w') = tbl (db w) \<and> safe E tbl ok entries u A (k x) H'"
  shows "safe E tbl ok entries u A (call m k) H"
proof (rule safe_call)
  fix H' w x w' assume a: "H \<subseteq> H'" "il_inv E tbl ok entries H' w" "run_state m w = (x, w')"
  from assms [OF this] have b: "il_inv E tbl ok entries H' w'" "tbl (db w') = tbl (db w)" "safe E tbl ok entries u A (k x) H'"
    by auto
  moreover have "H' \<union> tbl (db w') = H'" using b(1) by (auto simp: il_inv_def)
  ultimately show "il_inv E tbl ok entries (H' \<union> tbl (db w')) w' \<and> others u (tbl (db w')) = others u (tbl (db w)) \<and>
      safe E tbl ok entries u A (k x) (H' \<union> tbl (db w'))"
    by simp
qed

section \<open>Every operation is safe\<close>

text \<open>What an answer to user \<open>u\<close> may say, given the rows the table has held.\<close>

fun answers :: "('db, 'rd, 'ob) externals \<Rightarrow> int \<Rightarrow> resource_op \<Rightarrow> Resource set \<Rightarrow> json \<Rightarrow> bool" where
  "answers E u (Op_get i) H j = (contains j ''error'' \<or> (\<exists>y \<in> H. owned u i y \<and> j = resource_item y))"
| "answers E u Op_list H j =
     (contains j ''error'' \<or> (\<exists>ys. set ys \<subseteq> {y \<in> H. res_user_id y = u} \<and> j = resource_list ys))"
| "answers E u (Op_download i) H j = (contains j ''error'' \<or> (\<exists>y \<in> H. owned u i y \<and> res_is_file y \<and>
     (\<exists>w. j = fst (run_state (create_download_url E (res_content y)) w))))"
| "answers E u (Op_create t x f) H j = (contains j ''error'' \<or> j = status_json ''created'' \<and>
     (\<exists>y \<in> H. res_user_id y = u \<and> res_title y = c_str t \<and> res_content y = c_str x \<and> res_is_file y = f))"
| "answers E u (Op_update i t x) H j = (contains j ''error'' \<or> j = status_json ''updated'' \<and>
     (\<exists>y \<in> H. owned u i y \<and> res_title y = c_str t \<and> res_content y = c_str x))"
| "answers E u (Op_delete i) H j =
     (contains j ''error'' \<or> j = status_json ''deleted'' \<and> (\<exists>y \<in> H. owned u i y))"

lemma answers_grow: "grows (answers E u p)"
  by (cases p) (fastforce simp: grows_def)+

lemma answers_error: "contains j ''error'' \<Longrightarrow> answers E u p H j"
  by (cases p) auto

lemma safe_dao_error: "safe E tbl ok entries u (answers E u p) (last_call dao_error) H"
  unfolding last_call_def by (rule safe_call_same) (auto simp: answers_error)

lemma safe_service_error: "safe E tbl ok entries u (answers E u p) (last_call (service_error act e)) H"
  unfolding last_call_def
proof (rule safe_call_same)
  fix H' w x w' assume a: "il_inv E tbl ok entries H' w" "run_state (service_error act e) w = (x, w')"
  obtain l where "run_state (service_error act e) w = (error_json ''resource service unavailable'', w\<lparr>log_calls := l\<rparr>)"
    using run_service_error by blast
  with a show "il_inv E tbl ok entries H' w' \<and> tbl (db w') = tbl (db w) \<and> safe E tbl ok entries u (answers E u p) (Finished x) H'"
    by (auto simp: answers_error)
qed

lemma dao_get_resources_rows:
  assumes "pg_resources E tbl ok" "pool_ready (pg_pool w)" "ok (db w)" "int32 u"
    "run_state (dao_get_resources E u) w = (x, w')"
  shows "\<exists>ys. set ys \<subseteq> {y \<in> tbl (db w). res_user_id y = u} \<and> x = map (\<lambda>y. y\<lparr>res_user_id := 0\<rparr>) ys"
proof (cases "resource_msg w' = ''''")
  case True
  from pg_resources.dao_get_resources_contract [OF assms] True show ?thesis by blast
next
  case False
  have "x = []"
    using assms(2,5) False
    by (auto simp: dao_get_resources_def resource_dao_steps split: option.splits if_splits)
  then show ?thesis by (intro exI [of _ "[]"]) simp
qed

context resource_store
begin

abbreviation secure where "secure u p \<equiv> safe E tbl ok entries u (answers E u p)"

abbreviation ilinv where "ilinv \<equiv> il_inv E tbl ok entries"

lemma ilinv_ready: "ilinv H w \<Longrightarrow> redis_ready (redis w)" "ilinv H w \<Longrightarrow> pool_ready (pg_pool w)" "ilinv H w \<Longrightarrow> ok (db w)"
  "ilinv H w \<Longrightarrow> tbl (db w) \<subseteq> H"
  by (simp_all add: il_inv_def)

text \<open>Calls that leave the table alone: the cache, its parser, the log.\<close>

lemma secure_invalidate_list:
  assumes "\<And>b. secure u p (k b) H" shows "secure u p (call (cache_invalidate_resources E v) k) H"
proof (rule safe_call_same)
  fix H' w x w' assume a: "H \<subseteq> H'" "ilinv H' w" "run_state (cache_invalidate_resources E v) w = (x, w')"
  note c = cache_invalidate_resources_contract [OF ilinv_ready(1) [OF a(2)] a(3)]
  with il_inv_shrinks [OF a(2), of w'] safe_mono [OF answers_grow assms a(1)]
  show "ilinv H' w' \<and> tbl (db w') = tbl (db w) \<and> secure u p (k x) H'" by auto
qed

lemma secure_invalidate:
  assumes "\<And>b. secure u p (k b) H" shows "secure u p (call (cache_invalidate_resource E v i) k) H"
proof (rule safe_call_same)
  fix H' w x w' assume a: "H \<subseteq> H'" "ilinv H' w" "run_state (cache_invalidate_resource E v i) w = (x, w')"
  note c = cache_invalidate_resource_contract [OF ilinv_ready(1) [OF a(2)] a(3)]
  with il_inv_shrinks [OF a(2), of w'] safe_mono [OF answers_grow assms a(1)]
  show "ilinv H' w' \<and> tbl (db w') = tbl (db w) \<and> secure u p (k x) H'" by auto
qed

lemma secure_invalidate_both: "answers E u p H j \<Longrightarrow> secure u p (invalidate_both_prog E v i j) H"
  unfolding invalidate_both_prog_def by (intro secure_invalidate secure_invalidate_list) simp

lemma secure_log:
  assumes "secure u p (k ()) H" shows "secure u p (call (log l m) k) H"
  by (rule safe_call_same) (use safe_mono [OF answers_grow assms] in auto)

lemma secure_parse_none: "secure u p (k None) H \<Longrightarrow> secure u p (call (parse_cached_json E None) k) H"
  by (rule safe_call_same) (auto simp: parse_cached_json_def intro: safe_mono [OF answers_grow])

lemma secure_parse_some:
  "json_parse E s = Inr j \<Longrightarrow> secure u p (k (Some j)) H \<Longrightarrow> secure u p (call (parse_cached_json E (Some s)) k) H"
  by (rule safe_call_same) (auto simp: parse_cached_json_def intro: safe_mono [OF answers_grow])

end

context resource_store
begin

text \<open>The read of one row behind a cache miss, and of all rows of a user.\<close>

lemma secure_dao_get:
  assumes "int32 u" "int32 i"
    and none: "\<And>H'. H \<subseteq> H' \<Longrightarrow> secure u p (k None) H'"
    and some: "\<And>H' y. H \<subseteq> H' \<Longrightarrow> y \<in> H' \<Longrightarrow> owned u i y \<Longrightarrow> secure u p (k (Some (y\<lparr>res_user_id := 0\<rparr>))) H'"
  shows "secure u p (call (dao_get_resource E u i) k) H"
proof (rule safe_call_same)
  fix H' w x w' assume a: "H \<subseteq> H'" "ilinv H' w" "run_state (dao_get_resource E u i) w = (x, w')"
  note d = dao_get_resource_contract [OF ilinv_ready(2,3) [OF a(2)] assms(1,2) a(3)]
  have f: "dao_frame w w'" using dao_get_resource_frame [OF ilinv_ready(2) [OF a(2)], of E u i] a(3) by simp
  have "ilinv H' w'"
    using il_inv_dao [OF a(2) f] d ilinv_ready(4) [OF a(2)] by (simp add: Un_absorb2)
  moreover have "secure u p (k x) H'"
    using d none [OF a(1)] some [OF a(1)] ilinv_ready(4) [OF a(2)] by (auto split: option.splits)
  ultimately show "ilinv H' w' \<and> tbl (db w') = tbl (db w) \<and> secure u p (k x) H'" using d by simp
qed

lemma secure_store:
  assumes "y \<in> H" "owned u i y" "json_parse E s = Inr (resource_item y)" "\<And>b. secure u p (k b) H"
  shows "secure u p (call (cache_set_resource E u i s) k) H"
proof (rule safe_call_same)
  fix H' w x w' assume a: "H \<subseteq> H'" "ilinv H' w" "run_state (cache_set_resource E u i s) w = (x, w')"
  have "once_coherent E H' (m(resource_key u i \<mapsto> s))" if "once_coherent E H' m" for m
    using that assms(1-3) a(1) by (auto simp: once_coherent_def)
  with il_inv_stores [OF a(2)] cache_set_resource_contract [OF ilinv_ready(1) [OF a(2)] a(3)]
    safe_mono [OF answers_grow assms(4) a(1)]
  show "ilinv H' w' \<and> tbl (db w') = tbl (db w) \<and> secure u p (k x) H'" by auto
qed

lemma secure_store_list:
  assumes "set ys \<subseteq> {y \<in> H. res_user_id y = u}" "json_parse E s = Inr (resource_list ys)" "\<And>b. secure u p (k b) H"
  shows "secure u p (call (cache_set_resources E u s) k) H"
proof (rule safe_call_same)
  fix H' w x w' assume a: "H \<subseteq> H'" "ilinv H' w" "run_state (cache_set_resources E u s) w = (x, w')"
  have "set ys \<subseteq> {y \<in> H'. res_user_id y = u}" using assms(1) a(1) by auto
  then have "once_coherent E H' (m(resources_key u \<mapsto> s))" if "once_coherent E H' m" for m
    using that assms(2) by (auto simp: once_coherent_def)
  with il_inv_stores [OF a(2)] cache_set_resources_contract [OF ilinv_ready(1) [OF a(2)] a(3)]
    safe_mono [OF answers_grow assms(3) a(1)]
  show "ilinv H' w' \<and> tbl (db w') = tbl (db w) \<and> secure u p (k x) H'" by auto
qed

lemma get_loaded_secure:
  assumes "\<And>r. resource = Some r \<Longrightarrow> \<exists>y \<in> H. owned u i y \<and> r = y\<lparr>res_user_id := 0\<rparr>"
  shows "secure u (Op_get i) (get_loaded E u i resource) H"
proof (cases resource)
  case (Some r)
  from assms [OF this] obtain y where y: "y \<in> H" "owned u i y" "r = y\<lparr>res_user_id := 0\<rparr>" by blast
  show ?thesis
  proof (cases "json_dump E (resource_item r)")
    case (Inr s)
    have "json_parse E s = Inr (resource_item y)" using parse_dump [OF _ Inr] y(3) by simp
    then show ?thesis using y Inr Some by (auto simp: get_loaded_def intro!: secure_store [of y])
  qed (simp add: Some get_loaded_def safe_service_error)
qed (simp add: get_loaded_def safe_dao_error)

lemma get_secure:
  assumes "int32 u" "int32 i"
  shows "secure u (Op_get i) (get_prog E u i) H"
  unfolding get_prog_def
proof (rule safe_call_same)
  fix H' w raw w'
  assume a: "H \<subseteq> H'" "ilinv H' w" "run_state (cache_get_resource E u i) w = (raw, w')"
  note c = cache_get_resource_contract [OF ilinv_ready(1) [OF a(2)] a(3)]
  let ?k = "\<lambda>cached. case cached of
       Some j \<Rightarrow> call (log DEBUG (''resource cache hit user_id='' @ to_string u @ '' id='' @ to_string i))
         (\<lambda>_. Finished j)
     | None \<Rightarrow> call (dao_get_resource E u i) (get_loaded E u i)"
  have "secure u (Op_get i) (call (parse_cached_json E raw) ?k) H'"
  proof (cases raw)
    case (Some v)
    with c a(2) obtain y where y: "y \<in> H'" "owned u i y" "json_parse E v = Inr (resource_item y)"
      unfolding il_inv_def once_coherent_def by blast
    show ?thesis
      unfolding Some by (rule secure_parse_some [OF y(3)]) (simp, rule secure_log, use y in auto)
  next
    case None
    show ?thesis
      unfolding None by (intro secure_parse_none) (auto intro!: secure_dao_get assms get_loaded_secure)
  qed
  with il_inv_shrinks [OF a(2)] c
  show "ilinv H' w' \<and> tbl (db w') = tbl (db w) \<and> secure u (Op_get i) (call (parse_cached_json E raw) ?k) H'"
    by auto
qed

lemma list_loaded_secure:
  assumes "set ys \<subseteq> {y \<in> H. res_user_id y = u}" "resource_list vec = resource_list ys"
  shows "secure u Op_list (list_loaded E u vec) H"
  unfolding list_loaded_def
proof (rule safe_call_same)
  fix H' w x w' assume a: "H \<subseteq> H'" "ilinv H' w" "run_state State_Monad.get w = (x, w')"
  have ys: "set ys \<subseteq> {y \<in> H'. res_user_id y = u}" using assms(1) a(1) by auto
  have "secure u Op_list (case json_dump E (resource_list vec) of
      Inl e \<Rightarrow> last_call (service_error ''loading resources'' e)
    | Inr s \<Rightarrow> call (cache_set_resources E u s) (\<lambda>_. Finished (resource_list vec))) H'"
  proof (cases "json_dump E (resource_list vec)")
    case (Inr s)
    have "json_parse E s = Inr (resource_list ys)" using parse_dump [OF _ Inr] assms(2) by simp
    then show ?thesis using ys Inr assms(2) by (auto intro!: secure_store_list [of ys] exI [of _ ys])
  qed (simp add: safe_service_error)
  with a show "ilinv H' w' \<and> tbl (db w') = tbl (db w) \<and> secure u Op_list
      (if resource_msg x \<noteq> [] then last_call dao_error
       else (case json_dump E (resource_list vec) of
           Inl e \<Rightarrow> last_call (service_error ''loading resources'' e)
         | Inr s \<Rightarrow> call (cache_set_resources E u s) (\<lambda>_. Finished (resource_list vec)))) H'"
    by (auto simp: safe_dao_error)
qed

lemma list_dao_secure:
  assumes "int32 u"
  shows "secure u Op_list (call (dao_get_resources E u) (list_loaded E u)) H"
proof (rule safe_call_same)
  fix H' w x w' assume a: "H \<subseteq> H'" "ilinv H' w" "run_state (dao_get_resources E u) w = (x, w')"
  note d = dao_get_resources_contract [OF ilinv_ready(2,3) [OF a(2)] assms a(3)]
  obtain ys where ys: "set ys \<subseteq> {y \<in> tbl (db w). res_user_id y = u}" "x = map (\<lambda>y. y\<lparr>res_user_id := 0\<rparr>) ys"
    using dao_get_resources_rows [OF pg_resources_axioms ilinv_ready(2,3) [OF a(2)] assms a(3)] by blast
  have f: "dao_frame w w'" using dao_get_resources_frame [OF ilinv_ready(2) [OF a(2)], of E u] a(3) by simp
  have "ilinv H' w'" using il_inv_dao [OF a(2) f] d ilinv_ready(4) [OF a(2)] by (simp add: Un_absorb2)
  moreover have "set ys \<subseteq> {y \<in> H'. res_user_id y = u}" using ys(1) ilinv_ready(4) [OF a(2)] by auto
  ultimately show "ilinv H' w' \<and> tbl (db w') = tbl (db w) \<and> secure u Op_list (list_loaded E u x) H'"
    using d list_loaded_secure [of ys H' u x] ys(2) by simp
qed

lemma list_secure:
  assumes "int32 u"
  shows "secure u Op_list (list_prog E u) H"
  unfolding list_prog_def
proof (rule safe_call_same)
  fix H' w raw w'
  assume a: "H \<subseteq> H'" "ilinv H' w" "run_state (cache_get_resources E u) w = (raw, w')"
  note c = cache_get_resources_contract [OF ilinv_ready(1) [OF a(2)] a(3)]
  let ?k = "\<lambda>cached. case cached of
       Some j \<Rightarrow> call (log DEBUG (''resource list cache hit user_id='' @ to_string u)) (\<lambda>_. Finished j)
     | None \<Rightarrow> call (dao_get_resources E u) (list_loaded E u)"
  have "secure u Op_list (call (parse_cached_json E raw) ?k) H'"
  proof (cases raw)
    case (Some v)
    with c a(2) obtain ys where y: "set ys \<subseteq> {y \<in> H'. res_user_id y = u}" "json_parse E v = Inr (resource_list ys)"
      unfolding il_inv_def once_coherent_def by blast
    show ?thesis
      unfolding Some by (rule secure_parse_some [OF y(2)]) (simp, rule secure_log, use y in auto)
  next
    case None
    show ?thesis unfolding None by (rule secure_parse_none) (simp add: list_dao_secure [OF assms])
  qed
  with il_inv_shrinks [OF a(2)] c
  show "ilinv H' w' \<and> tbl (db w') = tbl (db w) \<and> secure u Op_list (call (parse_cached_json E raw) ?k) H'"
    by auto
qed

end

lemma others_update:
  "others u ((\<lambda>y. if owned u i y then y\<lparr>res_title := a, res_content := b\<rparr> else y) ` T) = others u T"
  by (auto simp: others_def owned_def image_iff split: if_splits)

lemma others_delete: "others u {y \<in> T. \<not> owned u i y} = others u T"
  by (auto simp: others_def owned_def)

context resource_store
begin

text \<open>A call of the DAO that writes: the new rows join the rows seen, and they are rows of \<open>u\<close>.\<close>

lemma secure_dao_write:
  assumes "\<And>w. pool_ready (pg_pool w) \<Longrightarrow> dao_frame w (snd (run_state m w))"
    and "\<And>w. pool_ready (pg_pool w) \<Longrightarrow> ok (db w) \<Longrightarrow> ok (db (snd (run_state m w))) \<and>
      others u (tbl (db (snd (run_state m w)))) = others u (tbl (db w))"
    and "\<And>H' w. H \<subseteq> H' \<Longrightarrow> ilinv H' w \<Longrightarrow>
      secure u p (k (fst (run_state m w))) (H' \<union> tbl (db (snd (run_state m w))))"
  shows "secure u p (call m k) H"
proof (rule safe_call)
  fix H' w x w' assume a: "H \<subseteq> H'" "ilinv H' w" "run_state m w = (x, w')"
  have "ilinv (H' \<union> tbl (db w')) w'"
    using il_inv_dao [OF a(2), of w'] assms(1,2) [of w] ilinv_ready [OF a(2)] a(3) by simp
  with assms(2) [of w] assms(3) [OF a(1,2)] ilinv_ready [OF a(2)] a(3)
  show "ilinv (H' \<union> tbl (db w')) w' \<and> others u (tbl (db w')) = others u (tbl (db w)) \<and>
      secure u p (k x) (H' \<union> tbl (db w'))" by simp
qed

lemma create_secure:
  assumes "int32 u"
  shows "secure u (Op_create t x f) (op_prog E u (Op_create t x f)) H"
proof -
  let ?r = "\<lparr>res_id = 0, res_user_id = u, res_title = t, res_content = x, res_is_file = f\<rparr>"
  let ?m = "dao_create_resource E ?r"
  have c: "ok (db (snd (run_state ?m w))) \<and>
      (if fst (run_state ?m w)
       then \<exists>i. tbl (db (snd (run_state ?m w))) = insert (?r\<lparr>res_id := i, res_title := c_str t, res_content := c_str x\<rparr>) (tbl (db w))
       else tbl (db (snd (run_state ?m w))) = tbl (db w))"
    if "pool_ready (pg_pool w)" "ok (db w)" for w :: "('db, 'rd, 'ob) world"
    using dao_create_contract [OF that, of ?r "fst (run_state ?m w)" "snd (run_state ?m w)"] assms
    by (auto split: if_splits)
  have o: "others u (insert y T) = others u T" if "res_user_id y = u" for y T using that by (auto simp: others_def)
  have "secure u (Op_create t x f) (call ?m (\<lambda>ok.
     if \<not> ok then last_call dao_error
     else call (cache_invalidate_resources E u) (\<lambda>_. Finished (status_json ''created'')))) H"
  proof (rule secure_dao_write)
    fix w :: "('db, 'rd, 'ob) world" and H'
    show "pool_ready (pg_pool w) \<Longrightarrow> dao_frame w (snd (run_state ?m w))" by (rule dao_create_frame)
    show "pool_ready (pg_pool w) \<Longrightarrow> ok (db w) \<Longrightarrow> ok (db (snd (run_state ?m w))) \<and>
        others u (tbl (db (snd (run_state ?m w)))) = others u (tbl (db w))"
      using c [of w] o by (auto split: if_splits)
    assume a: "H \<subseteq> H'" "ilinv H' w"
    show "secure u (Op_create t x f) (if \<not> fst (run_state ?m w) then last_call dao_error
        else call (cache_invalidate_resources E u) (\<lambda>_. Finished (status_json ''created'')))
        (H' \<union> tbl (db (snd (run_state ?m w))))"
      using c [OF ilinv_ready(2,3) [OF a(2)]] by (auto simp: safe_dao_error intro!: secure_invalidate_list)
  qed
  then show ?thesis by (simp add: create_prog_def cong: if_cong)
qed

lemma update_secure:
  assumes "int32 u" "int32 i"
  shows "secure u (Op_update i t x) (op_prog E u (Op_update i t x)) H"
proof -
  let ?r = "\<lparr>res_id = i, res_user_id = u, res_title = t, res_content = x, res_is_file = False\<rparr>"
  let ?m = "dao_update_resource E ?r"
  let ?f = "\<lambda>y. if owned u i y then y\<lparr>res_title := c_str t, res_content := c_str x\<rparr> else y"
  have c: "ok (db (snd (run_state ?m w))) \<and>
      (if fst (run_state ?m w) then (\<exists>y \<in> tbl (db w). owned u i y) \<and> tbl (db (snd (run_state ?m w))) = ?f ` tbl (db w)
       else tbl (db (snd (run_state ?m w))) = tbl (db w))"
    if "pool_ready (pg_pool w)" "ok (db w)" for w :: "('db, 'rd, 'ob) world"
    using dao_update_contract [OF that, of ?r "fst (run_state ?m w)" "snd (run_state ?m w)"] assms
    by (auto split: if_splits)
  have new: "\<exists>z \<in> ?f ` T. owned u i z \<and> res_title z = c_str t \<and> res_content z = c_str x"
    if "y \<in> T" "owned u i y" for y T
    using that by (intro bexI [of _ "?f y"]) (auto simp: owned_def)
  have "secure u (Op_update i t x) (call ?m (\<lambda>ok. if \<not> ok then last_call dao_error
     else invalidate_both_prog E u i (status_json ''updated''))) H"
  proof (rule secure_dao_write)
    fix w :: "('db, 'rd, 'ob) world" and H'
    show "pool_ready (pg_pool w) \<Longrightarrow> dao_frame w (snd (run_state ?m w))" by (rule dao_update_frame)
    show "pool_ready (pg_pool w) \<Longrightarrow> ok (db w) \<Longrightarrow> ok (db (snd (run_state ?m w))) \<and>
        others u (tbl (db (snd (run_state ?m w)))) = others u (tbl (db w))"
      using c [of w] others_update by (auto split: if_splits)
    assume a: "H \<subseteq> H'" "ilinv H' w"
    show "secure u (Op_update i t x) (if \<not> fst (run_state ?m w) then last_call dao_error
        else invalidate_both_prog E u i (status_json ''updated'')) (H' \<union> tbl (db (snd (run_state ?m w))))"
    proof (cases "fst (run_state ?m w)")
      case True
      with c [OF ilinv_ready(2,3) [OF a(2)]] obtain y where y: "y \<in> tbl (db w)" "owned u i y"
        "tbl (db (snd (run_state ?m w))) = ?f ` tbl (db w)" by auto
      have "answers E u (Op_update i t x) (H' \<union> tbl (db (snd (run_state ?m w)))) (status_json ''updated'')"
        using new [OF y(1,2)] unfolding y(3) by auto
      with True show ?thesis by (simp only: not_True_eq_False if_False secure_invalidate_both)
    qed (simp add: safe_dao_error)
  qed
  then show ?thesis by (simp add: update_prog_def cong: if_cong)
qed

lemma delete_row_secure:
  assumes "int32 u" "int32 i"
  shows "secure u (Op_delete i) (delete_row_prog E u i) H"
proof -
  let ?m = "dao_delete_resource E u i"
  have c: "ok (db (snd (run_state ?m w))) \<and>
      (if fst (run_state ?m w) then (\<exists>y \<in> tbl (db w). owned u i y) \<and>
         tbl (db (snd (run_state ?m w))) = {y \<in> tbl (db w). \<not> owned u i y}
       else tbl (db (snd (run_state ?m w))) = tbl (db w))"
    if "pool_ready (pg_pool w)" "ok (db w)" for w :: "('db, 'rd, 'ob) world"
    using dao_delete_contract [OF that assms, of "fst (run_state ?m w)" "snd (run_state ?m w)"]
    by (auto split: if_splits)
  show ?thesis
    unfolding delete_row_prog_def
  proof (rule secure_dao_write)
    fix w :: "('db, 'rd, 'ob) world" and H'
    show "pool_ready (pg_pool w) \<Longrightarrow> dao_frame w (snd (run_state ?m w))" by (rule dao_delete_frame)
    show "pool_ready (pg_pool w) \<Longrightarrow> ok (db w) \<Longrightarrow> ok (db (snd (run_state ?m w))) \<and>
        others u (tbl (db (snd (run_state ?m w)))) = others u (tbl (db w))"
      using c [of w] others_delete by (auto split: if_splits)
    assume a: "H \<subseteq> H'" "ilinv H' w"
    show "secure u (Op_delete i) (if \<not> fst (run_state ?m w) then last_call dao_error
        else invalidate_both_prog E u i (status_json ''deleted'')) (H' \<union> tbl (db (snd (run_state ?m w))))"
    proof (cases "fst (run_state ?m w)")
      case True
      with c [OF ilinv_ready(2,3) [OF a(2)]] obtain y where "y \<in> tbl (db w)" "owned u i y" by auto
      with ilinv_ready(4) [OF a(2)]
      have "answers E u (Op_delete i) (H' \<union> tbl (db (snd (run_state ?m w)))) (status_json ''deleted'')" by auto
      with True show ?thesis by (simp only: not_True_eq_False if_False secure_invalidate_both)
    qed (simp add: safe_dao_error)
  qed
qed

lemma delete_secure:
  assumes "int32 u" "int32 i"
  shows "secure u (Op_delete i) (delete_prog E u i) H"
proof -
  have obj: "secure u (Op_delete i) (call (delete_file E url e) (\<lambda>(deleted, error).
      if \<not> deleted then Finished (error_json error) else delete_row_prog E u i)) H'" for url e H'
  proof (rule safe_call_same)
    fix H'' w x w' assume a: "H' \<subseteq> H''" "ilinv H'' w" "run_state (delete_file E url e) w = (x, w')"
    obtain ob l where "w' = w\<lparr>objects := ob, log_calls := l\<rparr>"
      using delete_file_run [of E url e w] a(3) by auto
    with a(2) show "ilinv H'' w' \<and> tbl (db w') = tbl (db w) \<and> secure u (Op_delete i)
        (case x of (deleted, error) \<Rightarrow> if \<not> deleted then Finished (error_json error) else delete_row_prog E u i) H''"
      by (cases x) (simp add: delete_row_secure [OF assms])
  qed
  show ?thesis
    unfolding delete_prog_def
    by (rule secure_dao_get [OF assms]) (simp_all add: safe_dao_error obj delete_row_secure [OF assms])
qed

lemma download_secure:
  assumes "int32 u" "int32 i"
  shows "secure u (Op_download i) (download_prog E u i) H"
proof -
  have url: "secure u (Op_download i) (last_call (create_download_url E (res_content y))) H'"
    if "y \<in> H'" "owned u i y" "res_is_file y" for y H'
    unfolding last_call_def
  proof (rule safe_call_same)
    fix H'' w x w' assume a: "H' \<subseteq> H''" "ilinv H'' w" "run_state (create_download_url E (res_content y)) w = (x, w')"
    obtain l where "w' = w\<lparr>log_calls := l\<rparr>"
      using download_same_but_log [of w E "res_content y"] a(3) by (auto simp: same_but_log_def)
    moreover have "x = fst (run_state (create_download_url E (res_content y)) w)" using a(3) by simp
    ultimately show "ilinv H'' w' \<and> tbl (db w') = tbl (db w) \<and> secure u (Op_download i) (Finished x) H''"
      using a(1,2) that by auto
  qed
  show ?thesis
    unfolding download_prog_def
    by (rule secure_dao_get [OF assms]) (auto simp: safe_dao_error intro!: url)
qed

lemma op_secure: "op_ok (u, p) \<Longrightarrow> secure u p (op_prog E u p) H"
  using get_secure list_secure create_secure update_secure delete_secure download_secure
  by (cases p) auto

end

section \<open>The interleaved system\<close>

definition il_ok :: "('db, 'rd, 'ob) externals \<Rightarrow> ('db \<Rightarrow> Resource set) \<Rightarrow> ('db \<Rightarrow> bool) \<Rightarrow>
    ('rd \<Rightarrow> string \<rightharpoonup> string) \<Rightarrow> (int \<times> resource_op) list \<Rightarrow> ('db, 'rd, 'ob) interleaved \<Rightarrow> bool" where
  "il_ok E tbl ok entries ops s = (il_inv E tbl ok entries (il_seen s) (il_world s) \<and>
     list_all2 (\<lambda>(u, p) q. safe E tbl ok entries u (answers E u p) q (il_seen s)) ops (il_progs s))"

lemma coherent_once: "coherent E T m \<Longrightarrow> once_coherent E T m"
  unfolding coherent_def once_coherent_def by (rule conjI, blast) (blast intro: equalityD1)

lemma safe_CallD:
  assumes "safe E tbl ok entries u A (Call f) H" "il_inv E tbl ok entries H w" "f w = (p, w')"
  shows "il_inv E tbl ok entries (H \<union> tbl (db w')) w'" "others u (tbl (db w')) = others u (tbl (db w))"
    "safe E tbl ok entries u A p (H \<union> tbl (db w'))"
  using assms(1) [simplified, rule_format, OF subset_refl assms(2)] assms(3) by auto

lemma il_ok_step:
  assumes inv: "il_ok E tbl ok entries ops s" and step: "il_step tbl s t"
  shows "il_ok E tbl ok entries ops t"
  using step
proof (cases rule: il_step.cases)
  case (il_call k f p w)
  let ?H = "il_seen s \<union> tbl (db w)"
  have len: "length ops = length (il_progs s)" using inv by (auto simp: il_ok_def dest: list_all2_lengthD)
  obtain u q where op: "ops ! k = (u, q)" by (cases "ops ! k")
  have "list_all2 (\<lambda>(u, p) q. safe E tbl ok entries u (answers E u p) q (il_seen s)) ops (il_progs s)"
    using inv by (simp add: il_ok_def)
  from list_all2_nthD2 [OF this il_call(2)] have "safe E tbl ok entries u (answers E u q) (Call f) (il_seen s)"
    by (simp only: op il_call(3) prod.case)
  note n = safe_CallD [OF this _ il_call(4)]
  have i: "il_inv E tbl ok entries (il_seen s) (il_world s)" using inv by (simp add: il_ok_def)
  have "list_all2 (\<lambda>(u, p) q. safe E tbl ok entries u (answers E u p) q ?H) ops (il_progs s)"
    using inv unfolding il_ok_def
    by (auto elim!: list_all2_mono intro: safe_mono [OF answers_grow])
  then have "list_all2 (\<lambda>(u, p) q. safe E tbl ok entries u (answers E u p) q ?H) (ops[k := ops ! k]) ((il_progs s)[k := p])"
    by (rule list_all2_update_cong) (simp add: op n(3) [OF i])
  with n(1) [OF i] il_call(1) show ?thesis by (simp add: il_ok_def)
next
  case (il_msg m)
  with inv show ?thesis by (simp add: il_ok_def)
qed

lemma il_system:
  assumes "resource_store E tbl ok entries" "service_inv E tbl ok entries w" "list_all op_ok ops"
  shows "invariant_system (il_start E tbl w ops) (il_step tbl) (il_ok E tbl ok entries ops)"
proof
  fix s t :: "('a, 'b, 'c) interleaved"
  assume s: "il_start E tbl w ops s"
  have "il_inv E tbl ok entries (tbl (db w)) w"
    using assms(2) coherent_once by (auto simp: service_inv_def il_inv_def)
  moreover have "safe E tbl ok entries u (answers E u p) (op_prog E u p) H" if "(u, p) \<in> set ops" for u p H
    using resource_store.op_secure [OF assms(1)] assms(3) that by (auto simp: list_all_iff)
  ultimately show "il_ok E tbl ok entries ops s"
    using s by (auto simp: il_start_def il_ok_def list_all2_map2 intro!: list.rel_refl_strong)
next
  fix s t :: "('a, 'b, 'c) interleaved"
  assume "il_ok E tbl ok entries ops s" "il_step tbl s t"
  then show "il_ok E tbl ok entries ops t" by (rule il_ok_step)
qed

section \<open>Schedules\<close>

text \<open>The executable form of an interleaving: the workers whose turn it is, in order.\<close>

definition il_exec :: "('db \<Rightarrow> Resource set) \<Rightarrow> nat \<Rightarrow> ('db, 'rd, 'ob) interleaved \<Rightarrow> ('db, 'rd, 'ob) interleaved" where
  "il_exec tbl k s =
     (if k < length (il_progs s) then
        (case il_progs s ! k of
           Finished j \<Rightarrow> s
         | Call f \<Rightarrow> (case f (il_world s) of (p, w) \<Rightarrow>
             s\<lparr>il_progs := (il_progs s)[k := p], il_world := w, il_seen := il_seen s \<union> tbl (db w)\<rparr>))
      else s)"

definition begin_ops :: "('db, 'rd, 'ob) externals \<Rightarrow> ('db \<Rightarrow> Resource set) \<Rightarrow> ('db, 'rd, 'ob) world \<Rightarrow>
    (int \<times> resource_op) list \<Rightarrow> ('db, 'rd, 'ob) interleaved" where
  "begin_ops E tbl w ops = \<lparr>il_progs = map (\<lambda>(u, p). op_prog E u p) ops, il_world = w, il_seen = tbl (db w)\<rparr>"

definition schedule :: "('db, 'rd, 'ob) externals \<Rightarrow> ('db \<Rightarrow> Resource set) \<Rightarrow> ('db, 'rd, 'ob) world \<Rightarrow>
    (int \<times> resource_op) list \<Rightarrow> nat list \<Rightarrow> ('db, 'rd, 'ob) interleaved" where
  "schedule E tbl w ops ks = fold (il_exec tbl) ks (begin_ops E tbl w ops)"

fun prog_result :: "('w, 'a) prog \<Rightarrow> 'a option" where
  "prog_result (Finished a) = Some a"
| "prog_result (Call f) = None"

definition results :: "('db, 'rd, 'ob) interleaved \<Rightarrow> json option list" where
  "results s = map prog_result (il_progs s)"

lemma il_exec_reachable:
  "reachable start (il_step tbl) s \<Longrightarrow> reachable start (il_step tbl) (il_exec tbl k s)"
  by (auto simp: il_exec_def split: prog.splits prod.splits intro: reach_step il_call)

lemma schedule_reachable: "reachable (il_start E tbl w ops) (il_step tbl) (schedule E tbl w ops ks)"
proof -
  have "reachable (il_start E tbl w ops) (il_step tbl) (fold (il_exec tbl) ks s)"
    if "reachable (il_start E tbl w ops) (il_step tbl) s" for s
    using that by (induction ks arbitrary: s) (simp_all add: il_exec_reachable)
  moreover have "reachable (il_start E tbl w ops) (il_step tbl) (begin_ops E tbl w ops)"
    by (rule reach_start) (simp add: il_start_def begin_ops_def)
  ultimately show ?thesis by (simp add: schedule_def)
qed

lemma il_reachable_ok:
  assumes "resource_store E tbl ok entries" "service_inv E tbl ok entries w" "list_all op_ok ops"
    "reachable (il_start E tbl w ops) (il_step tbl) s" "k < length ops" "ops ! k = (u, p)"
  shows "il_inv E tbl ok entries (il_seen s) (il_world s)"
    "safe E tbl ok entries u (answers E u p) (il_progs s ! k) (il_seen s)"
proof -
  from invariant_system.reachable_inv [OF il_system [OF assms(1-3)] assms(4)]
  have i: "il_inv E tbl ok entries (il_seen s) (il_world s)"
    and a: "list_all2 (\<lambda>(u, p) q. safe E tbl ok entries u (answers E u p) q (il_seen s)) ops (il_progs s)"
    by (simp_all add: il_ok_def)
  show "il_inv E tbl ok entries (il_seen s) (il_world s)" by (rule i)
  from list_all2_nthD [OF a assms(5)] show "safe E tbl ok entries u (answers E u p) (il_progs s ! k) (il_seen s)"
    by (simp only: assms(6) prod.case)
qed

section \<open>Correctness\<close>

text \<open>
  C6: Requests that run at the same time. Workers carry out any operations of any users, interleaved at
  every call to the DAO, the cache, the store and the shared message, which other threads may overwrite
  at any time; the cache may lose entries and the invalidations may fail. Still each call of a worker
  leaves the rows of every user but its own as they are, and an answer is an error or speaks only of rows
  of its user that the table holds or has held since the start: nobody ever sees another user's resource
  or one that never existed.
\<close>

theorem interleaved_requests_confined:
  assumes "resource_store E tbl ok entries" "service_inv E tbl ok entries w" "list_all op_ok ops"
    "reachable (il_start E tbl w ops) (il_step tbl) s" "k < length ops" "ops ! k = (u, p)"
  shows "(\<forall>j. il_progs s ! k = Finished j \<longrightarrow> answers E u p (il_seen s) j) \<and>
    (\<forall>f q w'. il_progs s ! k = Call f \<longrightarrow> f (il_world s) = (q, w') \<longrightarrow>
      others u (tbl (db w')) = others u (tbl (db (il_world s))))"
proof (intro conjI allI impI)
  note i = il_reachable_ok [OF assms]
  show "answers E u p (il_seen s) j" if "il_progs s ! k = Finished j" for j
    using i(2) by (simp add: that)
  show "others u (tbl (db w')) = others u (tbl (db (il_world s)))"
    if "il_progs s ! k = Call f" "f (il_world s) = (q, w')" for f q w'
    by (rule safe_CallD(2) [OF i(2) [unfolded that(1)] i(1) that(2)])
qed

text \<open>A read and an update of the same resource, as requests of two workers.\<close>

definition racing_ops :: "(int \<times> resource_op) list" where
  "racing_ops = [(1, Op_get 2), (1, Op_update 2 ''new'' ''text'')]"

definition stale_race :: "(ref_db, ref_redis, ref_objects) interleaved" where
  "stale_race = schedule ref_ext ref_table ref_world racing_ops [0, 0, 0, 1, 1, 1, 0]"

lemma racing_ops_ok: "list_all op_ok racing_ops"
  by (simp add: racing_ops_def int32_def int_bounds)

lemma stale_race_results: "results stale_race = [Some (resource_item note_row), Some (status_json ''updated'')]"
  by code_simp

lemma stale_race_finished: "il_progs stale_race ! 0 = Finished (resource_item note_row)"
  using stale_race_results by (cases "il_progs stale_race ! 0") (auto simp: results_def map_eq_Cons_conv)

theorem interleaved_requests_confined_witness: "answers ref_ext 1 (Op_get 2) (il_seen stale_race) (resource_item note_row)"
proof -
  have "0 < length racing_ops" "racing_ops ! 0 = (1, Op_get 2)" by (simp_all add: racing_ops_def)
  from interleaved_requests_confined [OF ref_store.resource_store_axioms ref_world_inv racing_ops_ok
      schedule_reachable this, of "[0, 0, 0, 1, 1, 1, 0]"] stale_race_finished show ?thesis
    unfolding stale_race_def by blast
qed





end
