(* ===== verification/Dao_Exceptions.thy ===== *)
theory Dao_Exceptions
  imports Interleaving User_Service
begin

text \<open>
  The exception paths of \<^verbatim>\<open>src/src/dao/resource_dao.cpp\<close> and \<^verbatim>\<open>user_dao.cpp\<close>. libpq raises nothing, but the
  standard library may (locking the mutex of the pool, growing a string or a vector). What such an
  exception leaves behind depends on how far the \<^verbatim>\<open>try\<close> block had come: the guards of the leased
  connection and of the result are unwound, then a \<^verbatim>\<open>catch\<close> clause reports, then the function returns
  its default. \<open>Resource_Dao\<close> and \<open>User_Dao\<close> have the runs without an exception.
\<close>

section \<open>The catch clauses\<close>

definition dao_exception_text :: "string \<Rightarrow> string \<Rightarrow> exn \<Rightarrow> string" where
  "dao_exception_text kind act e = kind @ '' database error while '' @ act @
     (case exn_what e of Some what \<Rightarrow> '': '' @ what | None \<Rightarrow> ''.'')"



section \<open>Unwinding\<close>

text \<open>
  Where the exception is raised: before a connection is leased, with the connection but before the
  statement, or after the statement, with a number of result rows already copied.
\<close>

datatype raise_point = Raised_leasing | Raised_leased | Raised_executed nat



section \<open>The functions that raise\<close>








section \<open>What an exception leaves behind\<close>

text \<open>
  The connection is back in the pool, the cache client, the cache and the object store are as they were,
  and the table has changed only if the statement had been executed.
\<close>

definition contained :: "raise_point \<Rightarrow> ('db, 'rd, 'ob) world \<Rightarrow> ('db, 'rd, 'ob) world \<Rightarrow> bool" where
  "contained at w w' = (pool_ready (pg_pool w') \<and> set (conn_list (pg_pool w')) = set (conn_list (pg_pool w)) \<and>
     cur_conn (pg_pool w') = cur_conn (pg_pool w) \<and> free_conn (pg_pool w') = free_conn (pg_pool w) \<and>
     redis w' = redis w \<and> redis_srv w' = redis_srv w \<and> objects w' = objects w \<and>
     (db w' = db w \<or> (\<exists>n. at = Raised_executed n)))"

lemma pool_rotated_fields [simp]:
  "pool_ready p \<Longrightarrow> set (conn_list (pool_rotated p)) = set (conn_list p)"
  "cur_conn (pool_rotated p) = cur_conn p" "free_conn (pool_rotated p) = free_conn p"
  by (cases "conn_list p"; auto simp: pool_rotated_def pool_ready_def)+

lemma dao_exception_text_nonempty [simp]: "dao_exception_text kind act e \<noteq> ''''"
  by (simp add: dao_exception_text_def)

text \<open>Statements change the database and the log only.\<close>

definition only_db :: "(PGconn \<Rightarrow> ('db, 'rd, 'ob, PGresult option) action) \<Rightarrow> bool" where
  "only_db stmt = (\<forall>c v. let v' = snd (run_state (stmt c) v) in
     pg_pool v' = pg_pool v \<and> redis v' = redis v \<and> redis_srv v' = redis_srv v \<and> objects v' = objects v)"

lemma only_db_statements [simp]:
  "only_db (\<lambda>c. PQexecParams E c sql vs)"
  "only_db (\<lambda>c. do { log level m; PQexecParams E c sql vs })"
  by (simp_all add: only_db_def)

lemma contained_fields [simp]:
  "contained at w (w'\<lparr>resource_msg := m\<rparr>) = contained at w w'"
  "contained at w (w'\<lparr>user_msg := m\<rparr>) = contained at w w'"
  "contained at w (w'\<lparr>log_calls := l\<rparr>) = contained at w w'"
  "contained at (w\<lparr>resource_msg := m\<rparr>) w' = contained at w w'"
  "contained at (w\<lparr>user_msg := m\<rparr>) w' = contained at w w'"
  by (simp_all add: contained_def)







end
