(* ===== verification/Reference_Server.thy ===== *)
theory Reference_Server
  imports Reference_Stores Main_Loop
begin

text \<open>
  A run of the composed server on the reference stores, for the examples: the process starts, accepts a
  client, reads its request and hands it to a worker.
\<close>

text \<open>A server of the reference stores, started with the cache switched off, that accepts one client.\<close>

definition boot_world :: "(ref_db, ref_redis, ref_objects) world" where
  "boot_world = ref_world\<lparr>pg_pool := pool_new\<rparr>"

definition booted :: "(int + (int \<times> int threadpool)) \<times> (ref_db, ref_redis, ref_objects) world" where
  "booted = run_state (boot ref_ext (\<lambda>i _. Inr i) 2 ''server'' 3) boot_world"

definition server0 :: "(ref_db, ref_redis, ref_objects) server" where
  "server0 = serve 3 (\<lambda>_. new_conn) {0, 1, 2, 3, 4} 4096 (the (threadpool_new 10 10000)) (snd booted)"

definition accept7 :: kernel_replies where
  "accept7 = \<lparr>k_accept = Accepted 7, k_segments = [], k_recv_end = Recv_again, k_accepted = [], k_send_end = Send_again\<rparr>"

definition server1 :: "(ref_db, ref_redis, ref_objects) server" where
  "server1 = wait_returns [(3, {EPOLLIN})] server0"

definition server2 :: "(ref_db, ref_redis, ref_objects) server" where
  "server2 = handle_event accept7 (3, {EPOLLIN}) (server1\<lparr>batch := []\<rparr>)"

lemma booted_ok: "fst booted = Inr (4096, the (threadpool_new 10 10000))"
proof -
  let ?E = "environ ref_ext"
  have env: "get_env_or_default ?E ''JWT_SECRET'' '''' = ''secret''"
    "get_env_int_or_default ?E ''JWT_EXPIRES_SECONDS'' 3600 = 3600"
    "get_env_int_or_default ?E ''MAX_FD'' DEFAULT_MAX_FD = 4096" "\<not> env_enabled ?E ''REDIS_ENABLED''"
    by (simp_all add: get_env_or_default_def get_env_int_or_default_def ref_environ_def env_enabled_def DEFAULT_MAX_FD_def)
  then have c: "run_state (check_config ref_ext) w = (Some 4096, w)" for w :: "(ref_db, ref_redis, ref_objects) world"
    by (simp add: check_config_def Let_def)
  obtain p :: "int threadpool option" and w1 where s: "run_state (start_workers 10 10000) boot_world = (p, w1)"
    by (metis surj_pair)
  have p: "p = Some (the (threadpool_new 10 10000))" "pg_pool w1 = pool_new"
    using start_workers_run [OF s] by (auto simp: threadpool_new_def same_but_log_def boot_world_def)
  have d: "fst (run_state (start_database ref_ext (\<lambda>i _. Inr i)) w1)"
    using p(2) by (simp add: start_database_def pool_init_def connect_all_ok [of _ _ _ _ "\<lambda>i. i"])
  then obtain w2 where "run_state (start_database ref_ext (\<lambda>i _. Inr i)) w1 = (True, w2)"
    by (metis fst_conv surj_pair)
  with c s p env(4) show ?thesis by (simp add: booted_def boot_def start_cache_def split_def)
qed

lemma server0_start: "server_start ref_ext server0"
proof -
  have "run_state (boot ref_ext (\<lambda>i _. Inr i) 2 ''server'' 3) boot_world =
      (Inr (4096, the (threadpool_new 10 10000)), snd booted)"
    using booted_ok by (metis booted_def prod.collapse)
  then show ?thesis
    unfolding server0_def by (rule server_startI) simp_all
qed

lemma server0_net: "netw server0 = addfd 3 False (empty_net {0, 1, 2, 3, 4})" "batch server0 = []" "listenfd server0 = 3"
  "max_fd server0 = 4096" "users server0 = (\<lambda>_. new_conn)" "workers server0 = the (threadpool_new 10 10000)"
  by (simp_all add: server0_def serve_def)

lemma server2_net: "interest (netw server2) 7 = Some {EPOLLIN, EPOLLRDHUP, EPOLLONESHOT}" "batch server2 = []"
  "listenfd server2 = 3" "max_fd server2 = 4096"
  by (simp_all add: server2_def server1_def wait_returns_def handle_event_def on_accept_def accept7_def
      server0_net addfd_def setnonblock_def empty_net_def deliver_def init_conn_def insert_commute)

lemma server2_reachable: "reachable (server_start ref_ext) (server_step ref_ext) server2"
proof (rule reach_step)
  show "reachable (server_start ref_ext) (server_step ref_ext) server1"
  proof (rule reach_step)
    show "reachable (server_start ref_ext) (server_step ref_ext) server0"
      by (rule reach_start) (rule server0_start)
    show "server_step ref_ext server0 server1"
      unfolding server1_def
      by (rule step_wait) (simp_all add: server0_net batch_ok_def reportable_def addfd_def setnonblock_def
        empty_net_def MAX_EVENT_NUMBER_def)
  qed
  show "server_step ref_ext server1 server2"
    unfolding server2_def
    by (rule step_event) (simp_all add: server1_def wait_returns_def accept7_def server0_net addfd_def
      setnonblock_def empty_net_def)
qed

lemma server2_client: "7 \<noteq> listenfd server2" "interest (netw server2) 7 \<noteq> None" "max_fd server2 \<le> 10000"
  by (simp_all add: server2_net)

definition server3 :: "(ref_db, ref_redis, ref_objects) server" where
  "server3 = wait_returns [(7, {EPOLLIN})] server2"

lemma server3_reachable: "reachable (server_start ref_ext) (server_step ref_ext) server3"
proof (rule reach_step [OF server2_reachable])
  show "server_step ref_ext server2 server3"
    unfolding server3_def
    by (rule step_wait) (simp_all add: server2_net batch_ok_def reportable_def MAX_EVENT_NUMBER_def)
qed

lemma server3_batch: "batch server3 = [(7, {EPOLLIN})]" "7 \<noteq> listenfd server3" "max_fd server3 \<le> 10000"
  by (simp_all add: server3_def wait_returns_def server2_net)

end
