(* ===== verification/Process_Exit.thy ===== *)
theory Process_Exit
  imports Reference_Server
begin

text \<open>
  The end of \<^verbatim>\<open>src/src/main.cpp\<close>: when \<^verbatim>\<open>epoll_wait\<close> fails the main thread leaves its loop, closes the
  two descriptors, deletes the array of connections and then the thread pool, while the workers go on
  until the destructor of the pool has stopped them.
\<close>

section \<open>Phases of the main thread\<close>

datatype main_phase = Looping | Left_loop | Sockets_closed | Users_deleted | Joining | Returned

record ('db, 'rd, 'ob) process_state =
  main_at :: main_phase
  srv :: "('db, 'rd, 'ob) server"

text \<open>Closing the epoll descriptor destroys the registry, so later calls of \<^const>\<open>modfd\<close> fail.\<close>

definition close_sockets :: "('db, 'rd, 'ob) server \<Rightarrow> ('db, 'rd, 'ob) server" where
  "close_sockets s = s\<lparr>netw := close_fd (listenfd s) ((netw s)\<lparr>interest := (\<lambda>_. None)\<rparr>)\<rparr>"

inductive exit_step :: "('db, 'rd, 'ob) externals \<Rightarrow> ('db, 'rd, 'ob) process_state \<Rightarrow>
    ('db, 'rd, 'ob) process_state \<Rightarrow> bool" for E :: "('db, 'rd, 'ob) externals" where
  ex_loop: "main_at x = Looping \<Longrightarrow> server_step E (srv x) t \<Longrightarrow> exit_step E x (x\<lparr>srv := t\<rparr>)"
| ex_failure: "main_at x = Looping \<Longrightarrow> batch (srv x) = [] \<Longrightarrow>
    exit_step E x (x\<lparr>main_at := Left_loop, srv := server_log ERROR ''epoll failure'' (srv x)\<rparr>)"
| ex_close: "main_at x = Left_loop \<Longrightarrow>
    exit_step E x (x\<lparr>main_at := Sockets_closed, srv := close_sockets (srv x)\<rparr>)"
| ex_delete: "main_at x = Sockets_closed \<Longrightarrow> exit_step E x (x\<lparr>main_at := Users_deleted\<rparr>)"
| ex_stop: "main_at x = Users_deleted \<Longrightarrow>
    exit_step E x (x\<lparr>main_at := Joining, srv := (srv x)\<lparr>workers := threadpool_stop (workers (srv x))\<rparr>\<rparr>)"
| ex_join: "main_at x = Joining \<Longrightarrow> \<forall>p \<in> set (threads (workers (srv x))). p = Exited \<Longrightarrow>
    exit_step E x (x\<lparr>main_at := Returned\<rparr>)"
| ex_worker: "main_at x \<noteq> Looping \<Longrightarrow> i < length (threads (workers (srv x))) \<Longrightarrow>
    worker_step E i (srv x) = Some t \<Longrightarrow> exit_step E x (x\<lparr>srv := t\<rparr>)"

inductive_cases exit_stepE: "exit_step E x y"

definition exit_start :: "('db, 'rd, 'ob) externals \<Rightarrow> ('db, 'rd, 'ob) process_state \<Rightarrow> bool" where
  "exit_start E x = (main_at x = Looping \<and> server_start E (srv x))"

section \<open>Invariant\<close>

definition exit_inv :: "('db, 'rd, 'ob) externals \<Rightarrow> ('db, 'rd, 'ob) process_state \<Rightarrow> bool" where
  "exit_inv E x =
     ((main_at x = Looping \<longrightarrow> reachable (server_start E) (server_step E) (srv x)) \<and>
      reachable tp_start tp_step (workers (srv x)) \<and>
      m_stop (workers (srv x)) = (main_at x = Joining \<or> main_at x = Returned))"

lemma worker_step_run:
  "worker_step E i s = Some t \<Longrightarrow> run_step i (threads (workers s) ! i) (workers s) = Some (workers t)"
  by (auto simp: worker_step_def)

lemma server_pool:
  "reachable (server_start E) (server_step E) s \<Longrightarrow> reachable tp_start tp_step (workers s) \<and> \<not> m_stop (workers s)"
  using sv.reachable_inv [of E s] by (auto simp: server_inv_def pool_ok_def)

lemma server_log_workers [simp]: "workers (server_log l m s) = workers s"
  by (simp add: server_log_def)

lemma close_sockets_workers [simp]: "workers (close_sockets s) = workers s"
  by (simp add: close_sockets_def)

interpretation ex: invariant_system "exit_start E" "exit_step E" "exit_inv E"
  for E :: "('db, 'rd, 'ob) externals"
proof unfold_locales
  show "exit_inv E x" if "exit_start E x" for x
    using that server_pool [OF reach_start, of E "srv x"] by (auto simp: exit_start_def exit_inv_def intro: reach_start)
  fix x y :: "('db, 'rd, 'ob) process_state"
  assume inv: "exit_inv E x" and step: "exit_step E x y"
  from step show "exit_inv E y"
  proof (cases rule: exit_step.cases)
    case (ex_loop t)
    then have "reachable (server_start E) (server_step E) t" using inv by (auto simp: exit_inv_def intro: reach_step)
    with ex_loop server_pool [OF this] show ?thesis by (simp add: exit_inv_def)
  next
    case ex_stop
    with inv have "tp_step (workers (srv x)) (threadpool_stop (workers (srv x)))"
      by (intro step_stop) (simp add: exit_inv_def)
    with inv ex_stop show ?thesis
      by (auto simp: exit_inv_def threadpool_stop_def intro: reach_step)
  next
    case (ex_worker i t)
    note run = worker_step_run [OF ex_worker(4)]
    have "tp_step (workers (srv x)) (workers t)" by (rule Thread_Pool.step_run [OF ex_worker(3) run])
    with inv ex_worker run_step_frame(2) [OF run] show ?thesis
      by (auto simp: exit_inv_def intro: reach_step)
  qed (use inv in \<open>auto simp: exit_inv_def\<close>)
qed

section \<open>The process ends\<close>

fun phase_rank :: "main_phase \<Rightarrow> nat" where
  "phase_rank Looping = 5"
| "phase_rank Left_loop = 4"
| "phase_rank Sockets_closed = 3"
| "phase_rank Users_deleted = 2"
| "phase_rank Joining = 1"
| "phase_rank Returned = 0"

definition exit_order :: "(('db, 'rd, 'ob) process_state \<times> ('db, 'rd, 'ob) process_state) set" where
  "exit_order = measures [\<lambda>x. phase_rank (main_at x), \<lambda>x. work_rank (workers (srv x))]"

lemma exit_step_order:
  assumes "exit_step E x y" "main_at x \<noteq> Looping"
  shows "(y, x) \<in> exit_order \<and> main_at y \<noteq> Looping"
  using assms(1)
proof (cases rule: exit_step.cases)
  case (ex_worker i t)
  with run_step_busy [OF ex_worker(3) worker_step_run [OF ex_worker(4)]] assms(2) show ?thesis
    by (simp add: exit_order_def)
qed (use assms(2) in \<open>auto simp: exit_order_def\<close>)

lemma exit_runs_end: "main_at x \<noteq> Looping \<Longrightarrow> Wellfounded.accp (\<lambda>y x. exit_step E x y) x"
proof (induction x rule: wf_induct_rule [OF wf_measures [of "[\<lambda>x. phase_rank (main_at x), \<lambda>x. work_rank (workers (srv x))]"]])
  case (1 x)
  show ?case
  proof (rule accp.intros)
    fix y assume "exit_step E x y"
    from exit_step_order [OF this 1(2)] 1(1) [of y] show "Wellfounded.accp (\<lambda>y x. exit_step E x y) y"
      by (simp add: exit_order_def)
  qed
qed

lemma exit_progress:
  assumes "exit_inv E x" "main_at x \<noteq> Looping" "main_at x \<noteq> Returned"
  shows "\<exists>y. exit_step E x y"
proof (cases "main_at x")
  case Joining
  show ?thesis
  proof (cases "\<forall>p \<in> set (threads (workers (srv x))). p = Exited")
    case False
    then obtain i where i: "i < length (threads (workers (srv x)))" "threads (workers (srv x)) ! i \<noteq> Exited"
      by (auto simp: in_set_conv_nth)
    have "reachable tp_start tp_step (workers (srv x))" "m_stop (workers (srv x))"
      using assms(1) Joining by (simp_all add: exit_inv_def)
    from stopped_progress [OF this i] obtain p where "run_step i (threads (workers (srv x)) ! i) (workers (srv x)) = Some p"
      by blast
    then have "\<exists>t. worker_step E i (srv x) = Some t" by (simp add: worker_step_def)
    with ex_worker [OF assms(2) i(1)] show ?thesis by blast
  qed (use ex_join Joining in blast)
qed (use assms(2,3) ex_close ex_delete ex_stop in blast)+

text \<open>
  C19: The process ends. Once \<^verbatim>\<open>epoll_wait\<close> has failed, every run of the main thread and the workers is
  finite, and as long as \<^verbatim>\<open>main\<close> has not returned some thread can move: the joins of the thread pool are
  reached and succeed, whatever the workers were doing (as far as they do not touch the deleted array, below).
\<close>

theorem process_ends:
  assumes "reachable (exit_start E) (exit_step E) x" "main_at x \<noteq> Looping"
  shows "Wellfounded.accp (\<lambda>y x. exit_step E x y) x \<and> (main_at x \<noteq> Returned \<longrightarrow> (\<exists>y. exit_step E x y))"
  using exit_runs_end [OF assms(2)] exit_progress [OF ex.reachable_inv [OF assms(1)] assms(2)] by blast

text \<open>A client sends a part of a request, and worker 0 takes it from the queue.\<close>

definition recv7 :: kernel_replies where
  "recv7 = \<lparr>k_accept = Accept_failed 0, k_segments = [''GET ''], k_recv_end = Recv_again, k_accepted = [], k_send_end = Send_again\<rparr>"

definition server4 :: "(ref_db, ref_redis, ref_objects) server" where
  "server4 = handle_event recv7 (7, {EPOLLIN}) (server3\<lparr>batch := []\<rparr>)"

definition work0 :: "(ref_db, ref_redis, ref_objects) server \<Rightarrow> (ref_db, ref_redis, ref_objects) server" where
  "work0 s = the (worker_step ref_ext 0 s)"

lemma server4_reachable: "reachable (server_start ref_ext) (server_step ref_ext) server4"
proof (rule reach_step [OF server3_reachable])
  show "server_step ref_ext server3 server4"
    unfolding server4_def
    by (rule step_event) (simp_all add: server3_def wait_returns_def recv7_def)
qed

lemma server2_users: "m_read_index (users server2 7) = 0" "workers server2 = the (threadpool_new 10 10000)"
  by (simp_all add: server2_def server1_def wait_returns_def handle_event_def on_accept_def accept7_def
      server0_net init_conn_def init_def Let_def empty_net_def addfd_def setnonblock_def)

lemma server3_read: "read [''GET ''] Recv_again (users server3 7) = (True, received ''GET '' (users server3 7))"
  using read_stores_segments [of "[''GET '']" Recv_again "users server3 7" "received ''GET '' (users server3 7)"]
  by (simp add: server3_def wait_returns_def server2_users READ_BUFFER_SIZE_def)

lemma server4_net: "batch server4 = []" "threads (workers server4) = replicate 10 At_check"
  "m_workqueue (workers server4) = [Some 7]" "m_queuestat (workers server4) = 1" "\<not> m_stop (workers server4)"
  using server3_read
  by (simp_all add: server4_def handle_event_def on_readable_def recv7_def submit_def append_run server3_def
      wait_returns_def server2_net server2_users threadpool_new_def)

text \<open>The states of worker 0 up to the call of \<^verbatim>\<open>process()\<close>.\<close>

lemma work0_step:
  assumes "run_step 0 (threads (workers s) ! 0) (workers s) = Some p" "\<forall>fd. threads (workers s) ! 0 \<noteq> At_run (Some fd)"
  shows "worker_step ref_ext 0 s = Some (s\<lparr>workers := p\<rparr>)" "work0 s = s\<lparr>workers := p\<rparr>"
  using assms by (auto simp: worker_step_def work0_def split: thread_pc.splits option.splits)

definition server5 :: "(ref_db, ref_redis, ref_objects) server" where
  "server5 = work0 (work0 (work0 (work0 server4)))"

lemma worker0_moves:
  assumes "reachable (server_start ref_ext) (server_step ref_ext) s \<and> s = server4\<lparr>workers := q\<rparr>"
    "0 < length (threads q)" "run_step 0 (threads q ! 0) q = Some p" "\<forall>fd. threads q ! 0 \<noteq> At_run (Some fd)"
  shows "reachable (server_start ref_ext) (server_step ref_ext) (work0 s) \<and> work0 s = server4\<lparr>workers := p\<rparr>"
proof -
  have q: "workers s = q" using assms(1) by simp
  have "worker_step ref_ext 0 s = Some (s\<lparr>workers := p\<rparr>)" "work0 s = s\<lparr>workers := p\<rparr>"
    by (rule work0_step; use assms(3,4) q in simp)+
  moreover from this(1) have "server_step ref_ext s (s\<lparr>workers := p\<rparr>)"
    by (rule step_worker [rotated]) (use assms(2) q in simp)
  ultimately show ?thesis using assms(1) by (auto intro: reach_step)
qed

lemma server5_run: "reachable (server_start ref_ext) (server_step ref_ext) server5 \<and>
  server5 = server4\<lparr>workers := (workers server4)\<lparr>threads := At_run (Some 7) # replicate 9 At_check, m_queuestat := 0,
    m_workqueue := [], popped := popped (workers server4) @ [Some 7]\<rparr>\<rparr>"
proof -
  let ?w = "workers server4"
  let ?p0 = "?w\<lparr>threads := At_check # replicate 9 At_check\<rparr>"
  let ?p1 = "?w\<lparr>threads := At_acquire # replicate 9 At_check\<rparr>"
  let ?p2 = "?w\<lparr>threads := At_recheck # replicate 9 At_check, m_queuestat := 0\<rparr>"
  let ?p3 = "?w\<lparr>threads := At_pop # replicate 9 At_check, m_queuestat := 0\<rparr>"
  have "?p0 = ?w" using server4_net(2) by (simp add: numeral_eq_Suc)
  with server4_reachable have 0: "reachable (server_start ref_ext) (server_step ref_ext) server4 \<and> server4 = server4\<lparr>workers := ?p0\<rparr>"
    by simp
  have 1: "reachable (server_start ref_ext) (server_step ref_ext) (work0 server4) \<and> work0 server4 = server4\<lparr>workers := ?p1\<rparr>"
    by (rule worker0_moves [OF 0]) (simp_all add: server4_net(3-))
  have 2: "reachable (server_start ref_ext) (server_step ref_ext) (work0 (work0 server4)) \<and> work0 (work0 server4) = server4\<lparr>workers := ?p2\<rparr>"
    by (rule worker0_moves [OF 1]) (simp_all add: server4_net(3-))
  have 3: "reachable (server_start ref_ext) (server_step ref_ext) (work0 (work0 (work0 server4))) \<and>
      work0 (work0 (work0 server4)) = server4\<lparr>workers := ?p3\<rparr>"
    by (rule worker0_moves [OF 2]) (simp_all add: server4_net(3-))
  show ?thesis
    unfolding server5_def by (rule worker0_moves [OF 3]) (simp_all add: server4_net(3-))
qed

lemma server5_net: "batch server5 = []" "threads (workers server5) = At_run (Some 7) # replicate 9 At_check"
  by (simp_all add: conjunct2 [OF server5_run] server4_net(1))

text \<open>The process after the failure of \<^verbatim>\<open>epoll_wait\<close>, at \<^verbatim>\<open>delete [] users\<close>.\<close>

definition users_deleted :: "(ref_db, ref_redis, ref_objects) process_state" where
  "users_deleted = \<lparr>main_at = Users_deleted, srv = close_sockets (server_log ERROR ''epoll failure'' server5)\<rparr>"

lemma looping_reachable:
  assumes "reachable (server_start E) (server_step E) s"
  shows "reachable (exit_start E) (exit_step E) \<lparr>main_at = Looping, srv = s\<rparr>"
  using assms
proof (induction rule: reachable.induct)
  case (reach_start s)
  then show ?case by (intro reachable.reach_start) (simp add: exit_start_def)
next
  case (reach_step s t)
  show ?case
    by (rule reachable.reach_step [OF reach_step(3)])
       (use ex_loop [of "\<lparr>main_at = Looping, srv = s\<rparr>" E t] reach_step(2) in simp)
qed

lemma users_deleted_reachable: "reachable (exit_start ref_ext) (exit_step ref_ext) users_deleted"
proof -
  let ?s = "server_log ERROR ''epoll failure'' server5"
  have "exit_step ref_ext \<lparr>main_at = Looping, srv = server5\<rparr> \<lparr>main_at = Left_loop, srv = ?s\<rparr>"
    using ex_failure [of "\<lparr>main_at = Looping, srv = server5\<rparr>" ref_ext] by (simp add: server5_net)
  with looping_reachable server5_run have "reachable (exit_start ref_ext) (exit_step ref_ext) \<lparr>main_at = Left_loop, srv = ?s\<rparr>"
    by (blast intro: reach_step)
  moreover have "exit_step ref_ext \<lparr>main_at = Left_loop, srv = ?s\<rparr> \<lparr>main_at = Sockets_closed, srv = close_sockets ?s\<rparr>"
    using ex_close [of "\<lparr>main_at = Left_loop, srv = ?s\<rparr>" ref_ext] by simp
  moreover have "exit_step ref_ext \<lparr>main_at = Sockets_closed, srv = close_sockets ?s\<rparr> users_deleted"
    using ex_delete [of "\<lparr>main_at = Sockets_closed, srv = close_sockets ?s\<rparr>" ref_ext] by (simp add: users_deleted_def)
  ultimately show ?thesis by (blast intro: reach_step)
qed

theorem process_ends_witness:
  "Wellfounded.accp (\<lambda>y x. exit_step ref_ext x y) users_deleted \<and> (\<exists>y. exit_step ref_ext users_deleted y)"
  using process_ends [OF users_deleted_reachable] by (simp add: users_deleted_def)

text \<open>
  C37: Use after free. The array of connections is deleted before the workers are stopped: there is a run
  in which, after \<^verbatim>\<open>delete [] users\<close>, a worker is about to call \<^verbatim>\<open>process()\<close> on an element of the array.
\<close>

theorem deleted_users_in_use:
  "\<exists>x i fd. reachable (exit_start ref_ext) (exit_step ref_ext) x \<and> main_at x = Users_deleted \<and>
     i < length (threads (workers (srv x))) \<and> threads (workers (srv x)) ! i = At_run (Some fd)"
proof (intro exI conjI)
  show "reachable (exit_start ref_ext) (exit_step ref_ext) users_deleted" by (rule users_deleted_reachable)
  show "main_at users_deleted = Users_deleted" by (simp add: users_deleted_def)
  have "threads (workers (srv users_deleted)) = At_run (Some 7) # replicate 9 At_check"
    by (simp add: users_deleted_def server5_net)
  then show "0 < length (threads (workers (srv users_deleted)))" "threads (workers (srv users_deleted)) ! 0 = At_run (Some 7)"
    by simp_all
qed

end
