(* ===== verification/Spec2Isabelle.thy ===== *)
theory Spec2Isabelle
  imports Account_Properties Connection_Types Request_Head Redis_Pool Dao_Exceptions Process_Exit
begin

text \<open>
\<^bold>\<open>A verification of the C++ server under \<^verbatim>\<open>src/src/\<close>.\<close>

The program is an HTTP/1.1 JSON server: one main thread runs an epoll loop over non-blocking sockets,
a pool of worker threads parses requests and runs the route handlers, and the handlers use services
over PostgreSQL, a Redis cache and an S3-compatible object store. Each component has its own theory;
a definition is named after the function it models, or carries a prefix where a name is used by several
classes (\<^verbatim>\<open>dao_\<close>, \<^verbatim>\<open>cache_\<close>, \<^verbatim>\<open>redis_\<close>).

\<^bold>\<open>Theories and sources.\<close>

  \<^item> \<open>Prelude\<close>: what the program uses of the C and C++ libraries (C strings, \<^verbatim>\<open>strtol\<close>, \<^verbatim>\<open>atoi\<close> with 32-bit
    wrap-around, \<^verbatim>\<open>std::to_string\<close>), exceptions as values, reachability of step relations, and the
    locales \<open>invariant_system\<close> and \<open>token_queue\<close> that the concurrent components interpret.
  \<^item> \<open>Env_Utils\<close>: \<^verbatim>\<open>utils/env_utils.h\<close>, \<^verbatim>\<open>env_enabled\<close> of \<^verbatim>\<open>main.cpp\<close>, the storage variables.
  \<^item> \<open>Logger\<close>: \<^verbatim>\<open>utils/logger.h\<close>, \<^verbatim>\<open>utils/logger.cpp\<close>; queue, worker and destructor as steps.
  \<^item> \<open>Thread_Pool\<close>: \<^verbatim>\<open>thread/threadpool.h\<close>; every access to shared state is one step of a program counter.
  \<^item> \<open>Connection_Pool\<close>: \<^verbatim>\<open>db/connection_pool.cpp\<close>; member functions, and client threads as a step relation.
  \<^item> \<open>Json\<close>, \<open>World\<close>: JSON values, the third-party functions (record \<open>externals\<close>, a parameter of every
    definition that calls them) and the state that a request reads and writes (record \<open>world\<close>).
  \<^item> \<open>Redis_Client\<close>, \<open>Resource_Cache\<close>: \<^verbatim>\<open>cache/\<close>; \<open>Redis_Pool\<close> takes the commands of the client apart at
    their critical sections, for any number of threads. \<open>Dao_Util\<close>, \<open>Resource_Dao\<close>, \<open>User_Dao\<close>: \<^verbatim>\<open>dao/\<close>;
    \<open>Dao_Exceptions\<close> has their runs that raise, with the unwinding and the \<^verbatim>\<open>catch\<close> clauses.
  \<^item> \<open>Auth_Utils\<close>, \<open>Jwt_Utils\<close>: \<^verbatim>\<open>utils/auth_utils.h\<close>, \<^verbatim>\<open>utils/jwt_utils.cpp\<close>.
  \<^item> \<open>Storage_Service\<close>, \<open>User_Service\<close>, \<open>Resource_Service\<close>: \<^verbatim>\<open>service/\<close>; \<open>Interleaving\<close> takes
    the resource operations apart at their calls and lets several workers run them at once.
  \<^item> \<open>Http_Request\<close>, \<open>Http_Response\<close>, \<open>Net\<close>, \<open>Http_Handlers\<close>, \<open>Http_Conn\<close>: \<^verbatim>\<open>network/http_conn.h\<close> and
    \<^verbatim>\<open>http_conn.cpp\<close>: the read buffer and the parsers on it, the response buffer, the epoll registry and
    the \<^verbatim>\<open>writev\<close> loop, the route handlers, and the request state machine with its exception barrier.
    \<open>Request_Head\<close> specifies the requests on strings and shows that the buffer machine refines it.
  \<^item> \<open>Main_Loop\<close>, \<open>Process_Exit\<close>: \<^verbatim>\<open>main.cpp\<close>; the start of the process, the event loop interleaved with the
    workers, and the way out. \<open>Connection_Types\<close> gives the connection objects of the running server a type.
  \<^item> \<open>Reference_Stores\<close>, \<open>Reference_Server\<close>: executable stores, a token scheme and a JSON printer that
    satisfy all the laws below, and a run of the server on them; the witnesses use them. \<open>Account_Properties\<close> and this theory hold the properties that span
    components.

\<^bold>\<open>State and effects.\<close> A handler is a state computation over \<open>world\<close> (HOL-Library's state monad). A class
with members is a record; the read buffer is a function from offsets with the pointers of the code as
offsets, so that in-place NUL writes and the aliasing of \<^verbatim>\<open>m_url\<close>, \<^verbatim>\<open>m_host\<close> and the body are kept.
Exceptions are values of a sum type and reach the same \<^verbatim>\<open>catch\<close> clauses as in the code. Integers are
unbounded where the code cannot leave the range of its type and reduced to 32 or 64 bits where it can.

\<^bold>\<open>What is assumed of code outside the repository\<close> is stated in locales, each interpreted on the reference
stores: \<open>json_library\<close> (parsing what was printed), \<open>redis_store\<close> and \<open>redis_reliable\<close> (entries may vanish, GET
answers what was stored, a DEL is answered), \<open>pg_resources\<close> and \<open>pg_users\<close> (a statement does what its text
says or fails and changes nothing; keys are unique), \<open>jwt_library\<close>. The kernel's replies (\<^verbatim>\<open>recv\<close>, \<^verbatim>\<open>writev\<close>,
\<^verbatim>\<open>accept\<close>, \<^verbatim>\<open>epoll_wait\<close>) are arguments of the definitions and arbitrary but for the documented form of a
batch of events and of an accepted descriptor.

\<^bold>\<open>What is shown.\<close>

  \<^item> Resources: the cache is invisible (reads give the row of the table after any sequence of requests),
    every operation keeps the invariant and the rows of other users, and each operation has its exact
    effect on the table and the object store on every branch. Inside \<open>resource_store\<close> and
    \<open>resource_store_reliable\<close> these are the contracts of the service functions.
  \<^item> Accounts: the life of a token, login, registration, rejection without a valid token by every protected
    handler and by the dispatch as a whole, confinement of uploaded file names.
  \<^item> Requests: the parser on the buffer refines the specification on strings, for every well-formed
    request; independence of the segmentation of the input; the line scanner, the request line, the body
    bounds; \<open>process()\<close> always hands the connection back to the event loop; the bytes of every response,
    and that they are sent in order across partial writes; the type of every connection object.
  \<^item> Concurrency: exclusive leases of database connections and Redis contexts, no wait for a Redis context
    with ten workers, first-in-first-out processing, shutdown, the log; in the composed server every
    connection is referred to by at most one thread or queue, none is lost while the descriptor limit is
    within the queue capacity, the client counter is exact, and the workers come to rest with nothing left
    to do; after an epoll failure the process ends. Interleaved requests stay within the rows of their
    users, present or past.
  \<^item> Exceptions: wherever a DAO raises, its connection is returned and the answer is an error.
  \<^item> Edges where the program does not do what it should: a negative Content-Length, a full work queue, a
    failed cache invalidation, a file row that names another user's object, a read that races an update, an
    error message lost to another request, and connections deleted while a worker uses them.

\<^bold>\<open>Bounds and termination.\<close> No definition uses fuel: the loops over the buffers are functions with a
termination proof (the unread bytes decrease), the loops over kernel replies are recursive in the replies.
The buffer sizes, pool sizes and limits are those of the code.

\<^bold>\<open>Not modelled.\<close> In the composed server a request runs as one step of its worker; that requests interleave
inside the services is modelled in \<open>Interleaving\<close>, at the granularity of the calls to the DAO, the cache,
the store and the shared message, where each call is atomic (so two threads writing the bytes of the same
\<^verbatim>\<open>std::string\<close> at once, which is undefined, is not covered). Neither are memory exhaustion outside the
DAOs, what a store outside the read buffer or a use of the deleted connections does, the expiry of cache
entries as a function of time (entries may vanish at any moment instead), signal dispositions, socket options
and the listening address, the AWS SDK life cycle, and the parts of the repository that are not the server
(frontend, SQL scripts, deployment, tests).
\<close>

section \<open>Resources: table, cache and object store\<close>









text \<open>
  C20: Deleting. Either the answer is an error and the table is unchanged, or exactly the row of that
  user and id is gone; for a file the object store had confirmed the removal of its object before, and a
  file whose object could not be removed keeps its row.
\<close>

theorem delete_object_first:
  assumes "resource_store_reliable E tbl ok entries" "service_inv E tbl ok entries w" "int32 u" "int32 i"
  shows "\<exists>j w'. run_state (delete_resource E u i) w = (j, w') \<and>
    (if contains j ''error'' then tbl (db w') = tbl (db w)
     else \<exists>y \<in> tbl (db w). owned u i y \<and> tbl (db w') = tbl (db w) - {y} \<and>
       (if res_is_file y
        then object_key_of E (res_content y) \<noteq> '''' \<and>
          remove_request E (res_content y) (objects w) = (Inr (Inr ()), objects w')
        else objects w' = objects w))"
proof -
  obtain j w' where r: "run_state (delete_resource E u i) w = (j, w')"
    by (cases "run_state (delete_resource E u i) w")
  from resource_store_reliable.delete_resource_contract [OF assms r] r show ?thesis by blast
qed

theorem delete_object_first_witness:
  "\<exists>j w'. run_state (delete_resource ref_ext 1 3) ref_world = (j, w') \<and>
    (if contains j ''error'' then ref_table (db w') = ref_table (db ref_world)
     else \<exists>y \<in> ref_table (db ref_world). owned 1 3 y \<and> ref_table (db w') = ref_table (db ref_world) - {y} \<and>
       (if res_is_file y
        then object_key_of ref_ext (res_content y) \<noteq> '''' \<and>
          remove_request ref_ext (res_content y) (objects ref_world) = (Inr (Inr ()), objects w')
        else objects w' = objects ref_world))"
  by (rule delete_object_first [OF ref_store.resource_store_reliable_axioms ref_world_inv])
     (simp_all add: int32_def int_bounds)

text \<open>
  C21: Updating changes title and content (as C strings) of exactly the row of that user and id, and
  only if there is one; every error leaves the table unchanged.
\<close>

theorem update_exact:
  assumes "resource_store_reliable E tbl ok entries" "service_inv E tbl ok entries w"
    "int32 (ri_user_id q)" "int32 (ri_id q)"
  shows "\<exists>j w'. run_state (update_resource E q) w = (j, w') \<and>
    (if contains j ''error'' then tbl (db w') = tbl (db w)
     else (\<exists>y \<in> tbl (db w). owned (ri_user_id q) (ri_id q) y) \<and>
       tbl (db w') = (\<lambda>y. if owned (ri_user_id q) (ri_id q) y
         then y\<lparr>res_title := c_str (ri_title q), res_content := c_str (ri_content q)\<rparr> else y) ` tbl (db w))"
proof -
  obtain j w' where r: "run_state (update_resource E q) w = (j, w')"
    by (cases "run_state (update_resource E q) w")
  from resource_store_reliable.update_resource_contract [OF assms r] r show ?thesis by blast
qed

definition sample_update :: ResourceInfo where
  "sample_update = \<lparr>ri_id = 2, ri_user_id = 1, ri_title = ''new'', ri_content = ''text'', ri_is_file = False\<rparr>"

lemma sample_update_sel:
  "ri_id sample_update = 2" "ri_user_id sample_update = 1" "ri_title sample_update = ''new''"
  "ri_content sample_update = ''text''" "\<not> ri_is_file sample_update" "ri_is_file sample_update = False"
  by (simp_all add: sample_update_def)

lemma sample_update_c: "c_str ''new'' = ''new''" "c_str ''text'' = ''text''"
  by (simp_all add: c_str_def)

lemma int32_sample: "int32 1" "int32 2"
  by (simp_all add: int32_def int_bounds)

theorem update_exact_witness:
  "\<exists>j w'. run_state (update_resource ref_ext sample_update) ref_world = (j, w') \<and>
    (if contains j ''error'' then ref_table (db w') = ref_table (db ref_world)
     else (\<exists>y \<in> ref_table (db ref_world). owned 1 2 y) \<and>
       ref_table (db w') = (\<lambda>y. if owned 1 2 y
         then y\<lparr>res_title := ''new'', res_content := ''text''\<rparr> else y) ` ref_table (db ref_world))"
  using update_exact [OF ref_store.resource_store_reliable_axioms ref_world_inv, of sample_update]
  by (simp only: sample_update_sel sample_update_c int32_sample HOL.simp_thms)

text \<open>
  C22: Creating adds exactly one row, owned by the requesting user, under an id no row had; every error
  leaves the table unchanged.
\<close>

theorem create_exact:
  assumes "resource_store_reliable E tbl ok entries" "service_inv E tbl ok entries w" "int32 (ri_user_id q)"
  shows "\<exists>j w'. run_state (create_resource E q) w = (j, w') \<and>
    (if contains j ''error'' then tbl (db w') = tbl (db w)
     else \<exists>i. i \<notin> res_id ` tbl (db w) \<and> tbl (db w') = insert \<lparr>res_id = i, res_user_id = ri_user_id q,
       res_title = c_str (ri_title q), res_content = c_str (ri_content q), res_is_file = ri_is_file q\<rparr> (tbl (db w)))"
proof -
  obtain j w' where r: "run_state (create_resource E q) w = (j, w')"
    by (cases "run_state (create_resource E q) w")
  from resource_store_reliable.create_resource_contract [OF assms r] r show ?thesis by blast
qed

theorem create_exact_witness:
  "\<exists>j w'. run_state (create_resource ref_ext sample_update) ref_world = (j, w') \<and>
    (if contains j ''error'' then ref_table (db w') = ref_table (db ref_world)
     else \<exists>i. i \<notin> res_id ` ref_table (db ref_world) \<and> ref_table (db w') = insert \<lparr>res_id = i, res_user_id = 1,
       res_title = ''new'', res_content = ''text'', res_is_file = False\<rparr> (ref_table (db ref_world)))"
  using create_exact [OF ref_store.resource_store_reliable_axioms ref_world_inv, of sample_update]
  by (simp only: sample_update_sel sample_update_c int32_sample HOL.simp_thms)

section \<open>Requests\<close>





section \<open>The running server\<close>



text \<open>
  C2: Exclusive access. Under every interleaving of the event loop and the ten workers, a client
  connection is referred to by at most one of: the enabled entry of the epoll registry, the events the
  main thread still has to handle, the work queue, a worker. So no two threads ever act on the same
  connection, and a descriptor that is closed is referred to by none of them.
\<close>

theorem connection_owned_once:
  assumes "reachable (server_start E) (server_step E) s" "fd \<noteq> listenfd s"
  shows "owners fd s \<le> 1 \<and> (interest (netw s) fd = None \<longrightarrow> owners fd s = 0)"
  using conn_inv_owners [OF server_inv_conn [OF conjunct1 [OF sv.reachable_inv [OF assms(1)]] assms(2)]] by simp

theorem connection_owned_once_witness: "owners 7 server2 \<le> 1"
  using connection_owned_once [OF server2_reachable server2_client(1)] by simp

text \<open>
  C7: No lost connection. As long as the descriptor limit is at most the capacity of the work queue
  (the default is 4096 of 10000), a registered client is always in exactly one of those places: it waits
  for an event, or somebody is about to act on it.
\<close>

theorem no_connection_lost:
  assumes "reachable (server_start E) (server_step E) s" "fd \<noteq> listenfd s" "max_fd s \<le> 10000"
    "interest (netw s) fd \<noteq> None"
  shows "owners fd s = 1"
  using conn_inv_owners [OF server_inv_conn [OF conjunct1 [OF sv.reachable_inv [OF assms(1)]] assms(2)]]
    sv.reachable_inv [OF assms(1)] assms(3,4) by simp

theorem no_connection_lost_witness: "owners 7 server2 = 1"
  by (rule no_connection_lost [OF server2_reachable server2_client(1,3,2)])

text \<open>
  C29: The counter and the array. \<^verbatim>\<open>m_user_count\<close> is exactly the number of registered clients and never
  exceeds the limit; every registered descriptor indexes an element of \<^verbatim>\<open>users\<close> that holds this
  descriptor.
\<close>

theorem user_count_exact:
  assumes "reachable (server_start E) (server_step E) s"
  shows "m_user_count (netw s) = int (card (dom (interest (netw s)) - {listenfd s})) \<and>
    (\<forall>fd \<in> dom (interest (netw s)) - {listenfd s}. 0 \<le> fd \<and> fd < max_fd s \<and> m_sockfd (users s fd) = fd) \<and>
    m_user_count (netw s) \<le> max 0 (max_fd s)"
proof -
  let ?D = "dom (interest (netw s)) - {listenfd s}"
  note inv = conjunct1 [OF sv.reachable_inv [OF assms]]
  have c: "m_user_count (netw s) = int (card ?D)" using inv by (simp add: server_inv_def registry_def)
  have d: "0 \<le> fd \<and> fd < max_fd s \<and> m_sockfd (users s fd) = fd" if "fd \<in> ?D" for fd
    using inv that by (auto simp: server_inv_def conn_inv_def conn_ok_def)
  then have "?D \<subseteq> {0..<max_fd s}" by (meson atLeastLessThan_iff subsetI)
  then have "card ?D \<le> card {0..<max_fd s}" by (intro card_mono) auto
  with c d show ?thesis by auto
qed

theorem user_count_exact_witness:
  "m_user_count (netw server2) = int (card (dom (interest (netw server2)) - {listenfd server2}))"
  using user_count_exact [OF server2_reachable] by simp

text \<open>
  With that limit \<^verbatim>\<open>pool->append\<close>, whose result the event loop ignores, never rejects: whenever an
  event of a client is handled the work queue has room for it.
\<close>

lemma append_never_rejects:
  assumes "reachable (server_start E) (server_step E) s" "max_fd s \<le> 10000" "batch s = (fd, fl) # rest"
    "fd \<noteq> listenfd s"
  shows "fst (append (Some fd) (workers s))"
proof -
  note inv = sv.reachable_inv [OF assms(1)]
  have "in_hand fd (s\<lparr>batch := rest\<rparr>)" using in_hand_event [OF conjunct1 [OF inv] assms(3,4)] by simp
  from in_hand_room [OF this] inv assms(2) show ?thesis by (simp add: append_run)
qed

text \<open>
  C13: Requests are served. Every worker step lowers a rank, so the workers come to rest while the main
  thread is idle; and when no worker can move, the queue is empty, nothing is being processed and (with
  the limit above) every client is waiting for an event or in the current batch of the main thread.
\<close>

theorem workers_serve_all:
  assumes "reachable (server_start E) (server_step E) s"
  shows "(\<forall>i t. i < length (threads (workers s)) \<and> worker_step E i s = Some t \<longrightarrow>
      work_rank (workers t) < work_rank (workers s)) \<and>
    ((\<forall>i < length (threads (workers s)). worker_step E i s = None) \<longrightarrow>
      m_workqueue (workers s) = [] \<and> (\<forall>p \<in> set (threads (workers s)). p = At_acquire) \<and>
      (max_fd s \<le> 10000 \<longrightarrow> (\<forall>fd \<in> dom (interest (netw s)) - {listenfd s}.
         armed (netw s) fd \<or> fd \<in> fst ` set (batch s))))"
proof (intro conjI impI allI)
  show "work_rank (workers t) < work_rank (workers s)"
    if "i < length (threads (workers s)) \<and> worker_step E i s = Some t" for i t
    using run_step_busy [of i "workers s" "workers t"] worker_step_workers [of E i s t] that by simp
next
  assume rest: "\<forall>i < length (threads (workers s)). worker_step E i s = None"
  note inv = sv.reachable_inv [OF assms]
  have "threads (workers s) \<noteq> []" using sn.reachable_inv [OF assms] by auto
  then have r: "m_workqueue (workers s) = []" "\<forall>p \<in> set (threads (workers s)). p = At_acquire"
    using rest_no_work [of "listenfd s" "workers s"] inv rest by (auto simp: server_inv_def worker_step_None)
  then show "m_workqueue (workers s) = []" "\<forall>p \<in> set (threads (workers s)). p = At_acquire" by simp_all
  assume lim: "max_fd s \<le> 10000"
  show "\<forall>fd \<in> dom (interest (netw s)) - {listenfd s}. armed (netw s) fd \<or> fd \<in> fst ` set (batch s)"
  proof
    fix fd assume "fd \<in> dom (interest (netw s)) - {listenfd s}"
    then obtain F where F: "interest (netw s) fd = Some F" "fd \<noteq> listenfd s" by auto
    have "conn_inv fd s" using inv F(2) by (simp add: server_inv_def)
    then have "(if F = {} then 0 else 1) + length (events_of fd (batch s)) = 1"
      using F(1) inv lim rest_pool_count [OF r, of fd] by (simp add: conn_inv_def conn_ok_def)
    then show "armed (netw s) fd \<or> fd \<in> fst ` set (batch s)"
      using F(1) by (auto simp: armed_def events_of_def filter_eq_Cons_iff length_Suc_conv split: if_splits)
  qed
qed

theorem workers_serve_all_witness:
  "worker_step ref_ext 0 server2 \<noteq> None \<and>
   work_rank (workers (the (worker_step ref_ext 0 server2))) < work_rank (workers server2)"
proof -
  have w: "workers server2 = the (threadpool_new 10 10000)"
    by (simp add: server2_def server1_def handle_event_def on_accept_def accept7_def wait_returns_def server0_net
      split_def Let_def)
  then obtain t where "worker_step ref_ext 0 server2 = Some t" "0 < length (threads (workers server2))"
    by (simp add: worker_step_def threadpool_new_def)
  with conjunct1 [OF workers_serve_all [OF server2_reachable], rule_format, of 0 t] show ?thesis by simp
qed

text \<open>
  C30: The start. A process that reaches the event loop has a non-empty token secret and a positive token
  lifetime, a positive descriptor limit, ten free database connections and a cache client that is
  switched off or has connections; the stores are untouched.
\<close>

theorem boot_is_ready:
  assumes "run_state (boot E connect argc program sock) w = (Inr (fds, p), w')"
    "pg_pool w = pool_new" "redis_ready (redis w)"
  shows "get_secret E \<noteq> '''' \<and> 0 < get_expires_seconds E \<and> 0 < fds \<and> db w' = db w \<and> objects w' = objects w \<and>
    length (conn_list (pg_pool w')) = 10 \<and> reserve (pg_pool w') = 10 \<and> get_free_conn (pg_pool w') = 10 \<and>
    redis_ready (redis w')"
  by (rule boot_ready [OF assms])

theorem boot_is_ready_witness:
  "length (conn_list (pg_pool (snd booted))) = 10 \<and> redis_ready (redis (snd booted))"
proof -
  have "run_state (boot ref_ext (\<lambda>i _. Inr i) 2 ''server'' 3) boot_world =
      (Inr (4096, the (threadpool_new 10 10000)), snd booted)"
    using booted_ok by (metis booted_def prod.collapse)
  from boot_is_ready [OF this] show ?thesis by (simp add: boot_world_def ref_world_def redis_ready_def)
qed

section \<open>What goes wrong at the edges\<close>

text \<open>
  C38: A rejected request. When the work queue is full, the event loop ignores the result of
  \<^verbatim>\<open>pool->append\<close>: the connection stays registered but disabled and nothing refers to it any more, so
  it is neither served nor closed until the peer hangs up, and not even then noticed.
\<close>

theorem rejected_request_stranded:
  assumes "owners fd s = 1" "batch s = (fd, {EPOLLIN}) # rest" "fd \<noteq> listenfd s" "interest (netw s) fd = Some {}"
    "fst (read (k_segments k) (k_recv_end k) (users s fd))"
    "m_max_requests (workers s) \<le> length (m_workqueue (workers s))"
  shows "owners fd (handle_event k (fd, {EPOLLIN}) (s\<lparr>batch := rest\<rparr>)) = 0 \<and>
    interest (netw (handle_event k (fd, {EPOLLIN}) (s\<lparr>batch := rest\<rparr>))) fd = Some {}"
proof -
  have "events_of fd rest = []" "pool_count fd (workers s) = 0" "\<not> armed (netw s) fd"
    using assms(1,2,4) by (auto simp: owners_def armed_def split: if_splits)
  with assms(2-) show ?thesis
    by (simp add: handle_event_def on_readable_def submit_def append_run server_log_def owners_def split_def Let_def armed_def)
qed

definition full_server :: "(ref_db, ref_redis, ref_objects) server" where
  "full_server = server3\<lparr>workers := (workers server3)\<lparr>m_max_requests := 1, m_workqueue := [Some 9]\<rparr>\<rparr>"

definition hear_hello :: kernel_replies where
  "hear_hello = accept7\<lparr>k_segments := [''hello'']\<rparr>"

theorem rejected_request_stranded_witness:
  "owners 7 (handle_event hear_hello (7, {EPOLLIN}) (full_server\<lparr>batch := []\<rparr>)) = 0"
proof -
  have n: "interest (netw server3) 7 = Some {}"
    by (simp add: server3_def wait_returns_def interest_deliver server2_net)
  have u: "users server3 7 = init (new_conn\<lparr>m_sockfd := 7\<rparr>)" "workers server3 = the (threadpool_new 10 10000)"
    by (simp_all add: server3_def server2_def server1_def handle_event_def on_accept_def accept7_def wait_returns_def
        server0_net addfd_def setnonblock_def empty_net_def deliver_def init_conn_def)
  have "fst (read (k_segments hear_hello) (k_recv_end hear_hello) (users full_server 7))"
    by (simp add: full_server_def hear_hello_def accept7_def u read_def init_def READ_BUFFER_SIZE_def read_loop.simps
        Let_def)
  moreover have "owners 7 full_server = 1"
    by (simp add: full_server_def owners_def armed_def n server3_batch u threadpool_new_def pool_count_def how_many_def)
  ultimately show ?thesis
    using rejected_request_stranded [of 7 full_server "[]" hear_hello]
    by (simp add: full_server_def server3_batch n)
qed










end
